theory Spec2Isabelle
  imports Main
begin

section \<open>JavaScript values\<close>

text \<open>
  The guard of \<^verbatim>\<open>src/plugins/SchemeGuard.ts\<close> repairs data that a fetch hands to it.
  Such data is a finite tree: \<^verbatim>\<open>undefined\<close>, \<^verbatim>\<open>null\<close>, booleans, numbers, strings,
  arrays and plain objects. A plain object is the list of its own properties in
  insertion order, and its prototype is \<^verbatim>\<open>Object.prototype\<close>. An array is the list of
  its elements, without holes, and the list of the named properties it has besides;
  its prototype is \<^verbatim>\<open>Array.prototype\<close>. Numbers are integers here: the guard only
  asks for \<^verbatim>\<open>typeof\<close> and \<^verbatim>\<open>===\<close>.

  The guard also meets the methods that a target inherits from its prototype, since
  \<^verbatim>\<open>key in target\<close> is true of them. \<open>Native\<close> is such a function of the runtime,
  named after the property it is the value of, as in \<^verbatim>\<open>Object.prototype.toString\<close>.
\<close>

datatype jsval =
    Undefined
  | Null
  | Bool bool
  | Num int
  | Str string
  | Arr "jsval list" "(string \<times> jsval) list"
  | Obj "(string \<times> jsval) list"
  | Native string

text \<open>
  A call returns, or throws, or is cut off because the recursion went deeper than the
  depth budget it was given, or leaves the part of JavaScript that is described here.
  \<open>OutOfFuel\<close> is never a result of the program: a call that is \<open>OutOfFuel\<close> at every
  budget is a call that does not return. \<open>Outside\<close> stands where the program reads
  or writes the properties of a function of the runtime, reads or changes a
  prototype, or would leave a hole in an array. What the program does from there is
  not described, and nothing below is concluded from \<open>Outside\<close>.
\<close>

datatype js_error = TypeError | ReferenceError | RangeError

datatype 'a outcome = Return 'a | Throw js_error | OutOfFuel | Outside

fun bind :: "'a outcome \<Rightarrow> ('a \<Rightarrow> 'b outcome) \<Rightarrow> 'b outcome" where
  "bind (Return x) f = f x"
| "bind (Throw e) f = Throw e"
| "bind OutOfFuel f = OutOfFuel"
| "bind Outside f = Outside"

fun typeof :: "jsval \<Rightarrow> string" where
  "typeof Undefined = ''undefined''"
| "typeof Null = ''object''"
| "typeof (Bool b) = ''boolean''"
| "typeof (Num n) = ''number''"
| "typeof (Str s) = ''string''"
| "typeof (Arr xs ps) = ''object''"
| "typeof (Obj ps) = ''object''"
| "typeof (Native name) = ''function''"

text \<open>\<^verbatim>\<open>Array.isArray(v)\<close>.\<close>

fun isArrayValue :: "jsval \<Rightarrow> bool" where
  "isArrayValue (Arr xs ps) = True"
| "isArrayValue v = False"

text \<open>
  \<^verbatim>\<open>v === w\<close> where \<open>w\<close> is a value held by the schema: primitives are compared by
  value, and an object of the target is never the same object as one of the schema.
\<close>

fun strict_eq :: "jsval \<Rightarrow> jsval \<Rightarrow> bool" where
  "strict_eq (Arr xs ps) w = False"
| "strict_eq (Obj ps) w = False"
| "strict_eq (Native name) w = False"
| "strict_eq v w = (v = w)"

fun isObject :: "jsval \<Rightarrow> bool" where
  "isObject (Obj ps) = True"
| "isObject (Arr xs ps) = True"
| "isObject v = False"

fun properties :: "jsval \<Rightarrow> (string \<times> jsval) list" where
  "properties (Obj ps) = ps"
| "properties (Arr xs ps) = ps"
| "properties v = []"

fun elements :: "jsval \<Rightarrow> jsval list" where
  "elements (Arr xs ps) = xs"
| "elements v = []"

fun with_elements :: "jsval \<Rightarrow> jsval list \<Rightarrow> jsval" where
  "with_elements (Arr xs ps) ys = Arr ys ps"
| "with_elements v ys = v"

text \<open>
  The string-keyed properties of \<^verbatim>\<open>Object.prototype\<close>, which every plain object and
  every array inherits, and those of \<^verbatim>\<open>Array.prototype\<close> (ECMAScript 2023; the guard
  itself calls \<^verbatim>\<open>at\<close>, of ECMAScript 2022), which every array inherits.
\<close>

definition objectPrototypeNames :: "string list" where
  "objectPrototypeNames =
     [''constructor'', ''__defineGetter__'', ''__defineSetter__'', ''hasOwnProperty'',
      ''__lookupGetter__'', ''__lookupSetter__'', ''isPrototypeOf'', ''propertyIsEnumerable'',
      ''toString'', ''valueOf'', ''__proto__'', ''toLocaleString'']"

definition arrayPrototypeNames :: "string list" where
  "arrayPrototypeNames =
     [''length'', ''constructor'', ''at'', ''concat'', ''copyWithin'', ''fill'', ''find'',
      ''findIndex'', ''findLast'', ''findLastIndex'', ''lastIndexOf'', ''pop'', ''push'',
      ''reverse'', ''shift'', ''unshift'', ''slice'', ''sort'', ''splice'', ''includes'',
      ''indexOf'', ''join'', ''keys'', ''entries'', ''values'', ''forEach'', ''filter'', ''flat'',
      ''flatMap'', ''map'', ''every'', ''some'', ''reduce'', ''reduceRight'', ''toLocaleString'',
      ''toString'', ''toReversed'', ''toSorted'', ''toSpliced'', ''with'']"

text \<open>
  An array index is the decimal numeral, without leading zeros, of a number below
  \<open>2\<^sup>3\<^sup>2 - 1\<close>. Any other name of an array's property is \<^verbatim>\<open>length\<close> or a named
  property.
\<close>

definition digitChar :: "char \<Rightarrow> bool" where
  "digitChar c = (48 \<le> (of_char c :: nat) \<and> (of_char c :: nat) \<le> 57)"

definition letterChar :: "char \<Rightarrow> bool" where
  "letterChar c = (let n = (of_char c :: nat) in (65 \<le> n \<and> n \<le> 90) \<or> (97 \<le> n \<and> n \<le> 122))"

definition numberOf :: "string \<Rightarrow> int" where
  "numberOf k = foldl (\<lambda>n c. 10 * n + (of_char c - 48)) 0 k"

definition arrayIndex :: "string \<Rightarrow> nat option" where
  "arrayIndex k =
     (if k = [] then None
      else if list_ex (\<lambda>c. \<not> digitChar c) k then None
      else if hd k = CHR ''0'' \<and> tl k \<noteq> [] then None
      else if numberOf k < 4294967295 then Some (nat (numberOf k))
      else None)"

text \<open>
  \<^verbatim>\<open>key in target\<close> throws a TypeError when the target is not an object. For a
  plain object and an array it is true of the target's own properties and of the
  names it inherits.
\<close>

definition has_key :: "string \<Rightarrow> jsval \<Rightarrow> bool outcome" where
  "has_key k target =
     (case target of
        Obj ps \<Rightarrow> Return (k \<in> fst ` set ps \<or> k \<in> set objectPrototypeNames)
      | Arr xs ps \<Rightarrow>
          Return (k = ''length''
            \<or> (case arrayIndex k of Some i \<Rightarrow> i < length xs | None \<Rightarrow> k \<in> fst ` set ps)
            \<or> k \<in> set arrayPrototypeNames \<or> k \<in> set objectPrototypeNames)
      | Native name \<Rightarrow> Outside
      | _ \<Rightarrow> Throw TypeError)"

text \<open>
  \<^verbatim>\<open>target[key]\<close> reads an own property, \<^verbatim>\<open>undefined\<close> for a name that the target
  neither has nor inherits, and for an inherited name the method of the prototype;
  an inherited \<^verbatim>\<open>__proto__\<close> reads the prototype itself, which is \<open>Outside\<close>. An array
  inherits from \<^verbatim>\<open>Array.prototype\<close> first. The guard reads \<^verbatim>\<open>target[key]\<close> only after
  \<^verbatim>\<open>key in target\<close> was true, so only of an object.
\<close>

definition inherited :: "string \<Rightarrow> string \<Rightarrow> jsval outcome" where
  "inherited prototype k =
     (if k = ''__proto__'' then Outside else Return (Native (prototype @ ''.'' @ k)))"

definition get_prop :: "jsval \<Rightarrow> string \<Rightarrow> jsval outcome" where
  "get_prop target k =
     (case target of
        Obj ps \<Rightarrow>
          (case map_of ps k of
             Some v \<Rightarrow> Return v
           | None \<Rightarrow>
               if k \<in> set objectPrototypeNames then inherited ''Object.prototype'' k
               else Return Undefined)
      | Arr xs ps \<Rightarrow>
          if k = ''length'' then Return (Num (int (length xs)))
          else (case arrayIndex k of
                  Some i \<Rightarrow> if i < length xs then Return (xs ! i) else Return Undefined
                | None \<Rightarrow>
                    (case map_of ps k of
                       Some v \<Rightarrow> Return v
                     | None \<Rightarrow>
                         if k \<in> set arrayPrototypeNames then inherited ''Array.prototype'' k
                         else if k \<in> set objectPrototypeNames then inherited ''Object.prototype'' k
                         else Return Undefined))
      | Undefined \<Rightarrow> Throw TypeError
      | Null \<Rightarrow> Throw TypeError
      | _ \<Rightarrow> Outside)"

text \<open>
  \<^verbatim>\<open>target[key] = v\<close> overwrites an own property where it stands, or appends a new
  one, also under the name of an inherited method. A \<^verbatim>\<open>__proto__\<close> that is not an own
  property is the accessor of \<^verbatim>\<open>Object.prototype\<close>, whose setter changes the
  prototype: \<open>Outside\<close>.

  For an array, an index below the length overwrites the element, the index that
  equals the length appends one, and one above it would leave holes. Assigning to
  \<^verbatim>\<open>length\<close> converts the value to a number: it throws a RangeError unless that number
  is an integer from \<open>0\<close> to \<open>2\<^sup>3\<^sup>2 - 1\<close>, truncates the array when the number is at most
  the length, and would leave holes otherwise. \<^verbatim>\<open>undefined\<close> and a non-empty string of
  letters convert to \<^verbatim>\<open>NaN\<close> or \<^verbatim>\<open>Infinity\<close>, \<^verbatim>\<open>null\<close>, \<^verbatim>\<open>false\<close> and the empty string
  to \<open>0\<close>, \<^verbatim>\<open>true\<close> to \<open>1\<close>; other strings, arrays and objects are converted by rules that
  are not described here.
\<close>

fun assign :: "string \<Rightarrow> 'a \<Rightarrow> (string \<times> 'a) list \<Rightarrow> (string \<times> 'a) list" where
  "assign k v [] = [(k, v)]"
| "assign k v ((k', w) # ps) = (if k' = k then (k, v) # ps else (k', w) # assign k v ps)"

definition toLength :: "jsval \<Rightarrow> nat outcome" where
  "toLength v =
     (case v of
        Undefined \<Rightarrow> Throw RangeError
      | Null \<Rightarrow> Return 0
      | Bool b \<Rightarrow> Return (if b then 1 else 0)
      | Num n \<Rightarrow> if 0 \<le> n \<and> n < 4294967296 then Return (nat n) else Throw RangeError
      | Str s \<Rightarrow> if s = [] then Return 0 else if list_all letterChar s then Throw RangeError else Outside
      | _ \<Rightarrow> Outside)"

definition set_prop :: "jsval \<Rightarrow> string \<Rightarrow> jsval \<Rightarrow> jsval outcome" where
  "set_prop target k v =
     (case target of
        Obj ps \<Rightarrow>
          if k = ''__proto__'' \<and> k \<notin> fst ` set ps then Outside
          else Return (Obj (assign k v ps))
      | Arr xs ps \<Rightarrow>
          if k = ''length'' then
            bind (toLength v) (\<lambda>n. if n \<le> length xs then Return (Arr (take n xs) ps) else Outside)
          else (case arrayIndex k of
                  Some i \<Rightarrow>
                    if i < length xs then Return (Arr (xs[i := v]) ps)
                    else if i = length xs then Return (Arr (xs @ [v]) ps)
                    else Outside
                | None \<Rightarrow>
                    if k = ''__proto__'' \<and> k \<notin> fst ` set ps then Outside
                    else Return (Arr xs (assign k v ps)))
      | Undefined \<Rightarrow> Throw TypeError
      | Null \<Rightarrow> Throw TypeError
      | _ \<Rightarrow> Outside)"

section \<open>Schema descriptors\<close>

text \<open>
  \<^verbatim>\<open>const.ts\<close>: the keywords of the base types and the three kinds of declaration. The
  kind is the hidden \<^verbatim>\<open>_DeclarationTypeKey\<close> property of a generated binding.
\<close>

datatype KeyWord =
    StringKeyword | NumberKeyword | BooleanKeyword | UndefinedKeyword | NullKeyword
  | AnyKeyword | UnknownKeyword | NeverKeyword | BigKeyword | SymbolKeyword

datatype DeclarationType = InterfaceDeclaration | TypeLiteralDeclaration | TypeAliasDeclaration

text \<open>
  \<^verbatim>\<open>AttributeValue\<close> is \<^verbatim>\<open>{value, isArray, valueType}\<close>; \<open>valueType\<close> says what \<open>value\<close>
  holds, so each \<open>valueType\<close> is a constructor that carries its \<open>value\<close> and the
  \<open>isArray\<close> flag: a keyword for \<^verbatim>\<open>baseType\<close>, the literal's value for \<^verbatim>\<open>alias\<close>, the
  nested properties for \<^verbatim>\<open>typeLiteral\<close>, and for \<^verbatim>\<open>typeReference\<close> the name of the
  binding that the generated code mentions. A property is its key with the list of
  its attribute values (\<open>isOptional\<close> is never read by the guard).
\<close>

datatype AttributeValue =
    BaseType KeyWord bool
  | Alias jsval bool
  | TypeLiteral "(string \<times> AttributeValue list) list" bool
  | TypeReference string bool

type_synonym SchemaPropertyType = "string \<times> AttributeValue list"

text \<open>
  \<^verbatim>\<open>GuarderType\<close>: \<open>entries\<close> is \<^verbatim>\<open>Object.entries(targetSchema)\<close>, and \<open>declarationType\<close>
  is \<^verbatim>\<open>targetSchema[DeclarationTypeKey]\<close>, which an inline object type does not have.
  The bindings are the generated module: one schema per declaration name.
\<close>

record GuarderType =
  declarationType :: "DeclarationType option"
  entries :: "SchemaPropertyType list"

type_synonym bindings = "(string \<times> GuarderType) list"

definition inline :: "SchemaPropertyType list \<Rightarrow> GuarderType" where
  "inline fs = \<lparr>declarationType = None, entries = fs\<rparr>"

fun isArray :: "AttributeValue \<Rightarrow> bool" where
  "isArray (BaseType kw a) = a"
| "isArray (Alias v a) = a"
| "isArray (TypeLiteral fs a) = a"
| "isArray (TypeReference name a) = a"

text \<open>
  \<^verbatim>\<open>schemaProperty.attribute\<close> is an accessor (\<^verbatim>\<open>get attribute() {return [...]}\<close>,
  emitted by \<^verbatim>\<open>generateExportCode\<close>): every read builds the list anew and evaluates
  the binding names in it, so a name that no declaration of the module binds throws a
  ReferenceError at that read.
\<close>

fun bound :: "bindings \<Rightarrow> AttributeValue \<Rightarrow> bool" where
  "bound env (TypeReference name a) = (map_of env name \<noteq> None)"
| "bound env v = True"

definition attribute :: "bindings \<Rightarrow> SchemaPropertyType \<Rightarrow> AttributeValue list outcome" where
  "attribute env schemaProperty =
     (if list_all (bound env) (snd schemaProperty) then Return (snd schemaProperty)
      else Throw ReferenceError)"

text \<open>
  \<open>visited\<close> is a \<^verbatim>\<open>WeakSet\<close>: membership is by object identity, and \<^verbatim>\<open>has\<close> of a
  primitive is false. A referenced declaration is one object, identified by its name.
  The object of an inline type is built anew by each read of the accessor, so no
  later \<^verbatim>\<open>has\<close> can find it and \<^verbatim>\<open>add\<close> of it changes nothing that the guard can see.
\<close>

fun visited_has :: "string set \<Rightarrow> AttributeValue \<Rightarrow> bool" where
  "visited_has visited (TypeReference name a) = (name \<in> visited)"
| "visited_has visited v = False"

fun visited_add :: "string set \<Rightarrow> AttributeValue \<Rightarrow> string set" where
  "visited_add visited (TypeReference name a) = insert name visited"
| "visited_add visited v = visited"

section \<open>The guard\<close>

fun fillBaseType :: "KeyWord \<Rightarrow> jsval" where
  "fillBaseType StringKeyword = Str []"
| "fillBaseType NumberKeyword = Num 0"
| "fillBaseType BooleanKeyword = Bool False"
| "fillBaseType UndefinedKeyword = Undefined"
| "fillBaseType NullKeyword = Null"
| "fillBaseType kw = Null"

definition fillAliasType :: "jsval \<Rightarrow> jsval" where
  "fillAliasType baseValue = baseValue"

text \<open>The checks return \<^verbatim>\<open>{isVerify, value}\<close>.\<close>

definition checkBaseType :: "jsval \<Rightarrow> bool \<Rightarrow> KeyWord \<Rightarrow> bool \<times> jsval" where
  "checkBaseType paramValue isArr kw =
     (if isArr \<and> isArrayValue paramValue then (True, paramValue)
      else case kw of
          StringKeyword \<Rightarrow> (typeof paramValue = ''string'', paramValue)
        | NumberKeyword \<Rightarrow> (typeof paramValue = ''number'', paramValue)
        | BooleanKeyword \<Rightarrow> (typeof paramValue = ''boolean'', paramValue)
        | UndefinedKeyword \<Rightarrow> (typeof paramValue = ''undefined'', paramValue)
        | NullKeyword \<Rightarrow> (paramValue = Null, paramValue)
        | _ \<Rightarrow> (False, paramValue))"

definition checkAliasType :: "jsval \<Rightarrow> bool \<Rightarrow> jsval \<Rightarrow> bool \<times> jsval" where
  "checkAliasType paramValue isArr v =
     (if isArr \<and> isArrayValue paramValue then (True, paramValue)
      else if strict_eq paramValue v then (True, paramValue)
      else (False, v))"

text \<open>
  \<^verbatim>\<open>applySchemaGuard\<close> and the functions it calls are mutually recursive. Each of them
  takes the recursive reference to \<^verbatim>\<open>applySchemaGuard\<close> as its first argument \<open>g\<close>, and
  so does the body of \<^verbatim>\<open>applySchemaGuard\<close> itself, \<open>guardWith\<close>; \<open>applySchemaGuard\<close>
  below ties the knot, one unit of depth budget per nested call.

  A call of \<^verbatim>\<open>applySchemaGuard\<close> mutates its target in place and returns a value. The
  model returns both, with the \<open>visited\<close> set as the call leaves it: the value
  returned, the target after the call, the set.
\<close>

type_synonym guard_fn =
  "jsval \<Rightarrow> GuarderType \<Rightarrow> bool \<Rightarrow> string set \<Rightarrow> (jsval \<times> jsval \<times> string set) outcome"

text \<open>\<^verbatim>\<open>paramValue.forEach((item) => applySchemaGuard({target: item, targetSchema: value}))\<close>\<close>

fun forEachGuard :: "guard_fn \<Rightarrow> jsval list \<Rightarrow> GuarderType \<Rightarrow> jsval list outcome" where
  "forEachGuard g [] schema = Return []"
| "forEachGuard g (item # items) schema =
     bind (g item schema False {})
       (\<lambda>(returned, item', visited'). bind (forEachGuard g items schema)
          (\<lambda>items'. Return (item' # items')))"

text \<open>
  Both object checks leave out \<open>isArray\<close> and \<open>visited\<close> in their calls, so the
  defaults apply: \<open>false\<close> and a new set. They drop what the call returns and answer
  with \<open>paramValue\<close>, which the call has repaired in place.
\<close>

definition checkTypeLiteral ::
  "guard_fn \<Rightarrow> jsval \<Rightarrow> bool \<Rightarrow> SchemaPropertyType list \<Rightarrow> (bool \<times> jsval) outcome" where
  "checkTypeLiteral g paramValue isArr fs =
     (if isArr \<and> isArrayValue paramValue then
        bind (forEachGuard g (elements paramValue) (inline fs))
          (\<lambda>items. Return (True, with_elements paramValue items))
      else
        bind (g paramValue (inline fs) False {})
          (\<lambda>(returned, target', visited'). Return (True, target')))"

definition checkTypeReference ::
  "guard_fn \<Rightarrow> bindings \<Rightarrow> jsval \<Rightarrow> bool \<Rightarrow> string \<Rightarrow> (bool \<times> jsval) outcome" where
  "checkTypeReference g env paramValue isArr name =
     (case map_of env name of
        None \<Rightarrow> Throw ReferenceError
      | Some schema \<Rightarrow>
          if isArr \<and> isArrayValue paramValue then
            bind (forEachGuard g (elements paramValue) schema)
              (\<lambda>items. Return (True, with_elements paramValue items))
          else
            bind (g paramValue schema False {})
              (\<lambda>(returned, target', visited'). Return (True, target')))"

text \<open>
  The loop \<^verbatim>\<open>verIfyFieldsOuter\<close> of \<^verbatim>\<open>verifyAndFillField\<close>. A base type or an alias
  that passes leaves the loop (\<^verbatim>\<open>break verIfyFieldsOuter\<close>); an object check sets the
  flag and the loop goes on. \<open>target\<close> and \<open>newParam\<close> are the same object once a
  check has passed, so the loop carries the flag and the one value.
\<close>

fun verifyFields ::
  "guard_fn \<Rightarrow> bindings \<Rightarrow> AttributeValue list \<Rightarrow> jsval \<Rightarrow> bool \<Rightarrow> (bool \<times> jsval) outcome" where
  "verifyFields g env [] target verifyFlag = Return (verifyFlag, target)"
| "verifyFields g env (BaseType kw a # items) target verifyFlag =
     (if fst (checkBaseType target a kw) then Return (True, snd (checkBaseType target a kw))
      else verifyFields g env items target verifyFlag)"
| "verifyFields g env (Alias v a # items) target verifyFlag =
     (if fst (checkAliasType target a v) then Return (True, snd (checkAliasType target a v))
      else verifyFields g env items target verifyFlag)"
| "verifyFields g env (TypeLiteral fs a # items) target verifyFlag =
     bind (checkTypeLiteral g target a fs) (\<lambda>(isVerify, v).
       verifyFields g env items v (isVerify \<or> verifyFlag))"
| "verifyFields g env (TypeReference name a # items) target verifyFlag =
     bind (checkTypeReference g env target a name) (\<lambda>(isVerify, v).
       verifyFields g env items v (isVerify \<or> verifyFlag))"

text \<open>
  \<^verbatim>\<open>fillTypeLiteral\<close> returns the object it created; \<^verbatim>\<open>fillTypeReference\<close> returns
  what the call returned.
\<close>

definition fillTypeLiteral ::
  "guard_fn \<Rightarrow> SchemaPropertyType list \<Rightarrow> bool \<Rightarrow> string set \<Rightarrow> (jsval \<times> string set) outcome" where
  "fillTypeLiteral g fs isArr visited =
     bind (g (Obj []) (inline fs) isArr visited)
       (\<lambda>(returned, obj, visited'). Return (obj, visited'))"

definition fillTypeReference ::
  "guard_fn \<Rightarrow> bindings \<Rightarrow> string \<Rightarrow> bool \<Rightarrow> string set \<Rightarrow> (jsval \<times> string set) outcome" where
  "fillTypeReference g env name isArr visited =
     (case map_of env name of
        None \<Rightarrow> Throw ReferenceError
      | Some schema \<Rightarrow>
          bind (g (Obj []) schema isArr visited)
            (\<lambda>(returned, obj, visited'). Return (returned, visited')))"

text \<open>
  \<^verbatim>\<open>schemaProperty.attribute.at(-1)\<close> is \<^verbatim>\<open>undefined\<close> for an empty list, and reading
  a property of it throws a TypeError.
\<close>

definition autoFillValue ::
  "guard_fn \<Rightarrow> bindings \<Rightarrow> SchemaPropertyType \<Rightarrow> string set \<Rightarrow> (jsval \<times> string set) outcome" where
  "autoFillValue g env schemaProperty visited =
     bind (attribute env schemaProperty) (\<lambda>attrs.
       if attrs = [] then Throw TypeError
       else if isArray (last attrs) then Return (Arr [] [], visited)
       else case last attrs of
           BaseType kw a \<Rightarrow> Return (fillBaseType kw, visited)
         | Alias v a \<Rightarrow> Return (fillAliasType v, visited)
         | TypeLiteral fs a \<Rightarrow> fillTypeLiteral g fs a visited
         | TypeReference name a \<Rightarrow> fillTypeReference g env name a visited)"

definition verifyAndFillField ::
  "guard_fn \<Rightarrow> bindings \<Rightarrow> jsval \<Rightarrow> SchemaPropertyType \<Rightarrow> string set \<Rightarrow> (jsval \<times> string set) outcome" where
  "verifyAndFillField g env target propertyScheme visited =
     bind (attribute env propertyScheme) (\<lambda>attrs.
       bind (verifyFields g env attrs target False) (\<lambda>(verifyFlag, newParam).
         if \<not> verifyFlag then autoFillValue g env propertyScheme visited
         else Return (newParam, visited)))"

text \<open>
  The loop \<^verbatim>\<open>for (const [key, schemaProperty] of entries)\<close> of \<^verbatim>\<open>applySchemaGuard\<close>,
  with its \<^verbatim>\<open>return target\<close> in the branch of a visited schema. In
  \<^verbatim>\<open>target[key] = verifyAndFillField(target[key], schemaProperty, visited)\<close> the
  property is read, then the call is made, then the property is written.
\<close>

fun guardEntries ::
  "guard_fn \<Rightarrow> bindings \<Rightarrow> SchemaPropertyType list \<Rightarrow> jsval \<Rightarrow> string set \<Rightarrow> (jsval \<times> string set) outcome" where
  "guardEntries g env [] target visited = Return (target, visited)"
| "guardEntries g env (schemaProperty # rest) target visited =
     bind (has_key (fst schemaProperty) target) (\<lambda>present.
       if present then
         bind (get_prop target (fst schemaProperty)) (\<lambda>current.
           bind (verifyAndFillField g env current schemaProperty visited) (\<lambda>(v, visited').
             bind (set_prop target (fst schemaProperty) v) (\<lambda>target'.
               guardEntries g env rest target' visited')))
       else
         bind (attribute env schemaProperty) (\<lambda>attrs.
           if attrs = [] then Throw TypeError
           else if visited_has visited (last attrs) then
             bind (set_prop target (fst schemaProperty) (Obj [])) (\<lambda>target'.
               Return (target', visited))
           else
             bind (autoFillValue g env schemaProperty (visited_add visited (last attrs)))
               (\<lambda>(v, visited').
                  bind (set_prop target (fst schemaProperty) v) (\<lambda>target'.
                    guardEntries g env rest target' visited'))))"

text \<open>
  The body of \<^verbatim>\<open>applySchemaGuard\<close>. For a \<^verbatim>\<open>typeAlias\<close> declaration \<^verbatim>\<open>entries[0]\<close> is
  destructured, which throws a TypeError when there is no entry; the local \<open>target\<close>
  is then rebound, so the caller's target stays as it was.
\<close>

definition guardWith :: "guard_fn \<Rightarrow> bindings \<Rightarrow> guard_fn" where
  "guardWith g env target targetSchema isArr visited =
     (if isArr then Return (Arr [] [], target, visited)
      else if declarationType targetSchema = Some TypeAliasDeclaration then
        (case entries targetSchema of
           [] \<Rightarrow> Throw TypeError
         | schemaProperty # _ \<Rightarrow>
             bind (autoFillValue g env schemaProperty visited)
               (\<lambda>(v, visited'). Return (v, target, visited')))
      else
        bind (guardEntries g env (entries targetSchema) target visited)
          (\<lambda>(target', visited'). Return (target', target', visited')))"

text \<open>
  \<^verbatim>\<open>applySchemaGuard\<close> with a depth budget: a call may nest \<open>n\<close> further calls of
  itself when it is given \<open>Suc n\<close>, and none when it is given \<open>0\<close>.
\<close>

primrec applySchemaGuard :: "nat \<Rightarrow> bindings \<Rightarrow> guard_fn" where
  "applySchemaGuard 0 env = (\<lambda>target targetSchema isArr visited. OutOfFuel)"
| "applySchemaGuard (Suc n) env = guardWith (applySchemaGuard n env) env"

text \<open>
  A call from outside, \<^verbatim>\<open>applySchemaGuard({target, targetSchema, isArray})\<close>: the
  \<open>visited\<close> set is new, and the caller reads the value returned.
\<close>

definition guard :: "nat \<Rightarrow> bindings \<Rightarrow> jsval \<Rightarrow> GuarderType \<Rightarrow> bool \<Rightarrow> jsval outcome" where
  "guard n env target targetSchema isArr =
     bind (applySchemaGuard n env target targetSchema isArr {})
       (\<lambda>(returned, target', visited'). Return returned)"

section \<open>The parser\<close>

text \<open>
  \<^verbatim>\<open>src/plugins/InterfaceSchemaParser.ts\<close> walks the syntax tree that the TypeScript
  compiler builds. The tree is the input here: the kinds of type node that
  \<open>parseTypeNode\<close> tells apart, the members of an object type, and the top-level
  statements. A keyword node carries its keyword, a literal type and a type reference
  their text (\<^verbatim>\<open>getText()\<close>, type arguments included). A
  property signature carries the text of its name (empty when the name has none),
  whether it has a question token, and its type if it has one. A statement carries
  its name and whether it has an export or default modifier.

  \<open>Warning\<close> is what \<^verbatim>\<open>console.warn\<close> receives from \<open>createErrorAttr\<close>: one of the
  three messages of the parser. The parsing functions return the warnings they log
  next to their result, in the order of the calls.

  \<open>ParsedValue\<close> is the \<^verbatim>\<open>AttributeValue\<close> of the parser, one constructor per
  \<open>valueType\<close>, each with the \<open>isArray\<close> flag. Its \<open>value\<close> is the \<open>ParseError\<close>
  symbol; or the keyword of a base type, which stands for the quoted text
  \<^verbatim>\<open>'string_keyword'\<close>, ...; or the text of a literal; or the name of the binding that
  a type reference is printed as; or for an inline object type the list that
  \<^verbatim>\<open>members.map((m) => this.parsePropertyNode(m))\<close> returns, \<^verbatim>\<open>null\<close> entries included.
\<close>

datatype TypeNode =
    KeywordType KeyWord
  | ArrayType TypeNode
  | LiteralType string
  | UnionType "TypeNode list"
  | IntersectionType "TypeNode list"
  | TypeReferenceNode string
  | TypeLiteralNode "Member list"
  | OtherType string
and Member =
    PropertySignature string bool "TypeNode option"
  | OtherMember

datatype Statement =
    InterfaceStatement string bool "Member list"
  | TypeAliasStatement string bool TypeNode
  | OtherStatement

datatype Warning = EmptyTypeNode | UnknownType | GenericType string

datatype ParsedValue =
    ParseError bool
  | ParsedBase KeyWord bool
  | ParsedAlias string bool
  | ParsedReference string bool
  | ParsedLiteral "ParsedProperty option list" bool
and ParsedProperty =
  ParsedProperty (key: string) (parsedAttribute: "ParsedValue list") (isOptional: bool)

record SchemaInterface =
  objectName :: string
  props :: "ParsedProperty list"
  isExport :: bool
  kind :: DeclarationType

text \<open>\<^verbatim>\<open>Tool.ts\<close>: the name of the binding generated for a declaration.\<close>

definition formatObjectName :: "string \<Rightarrow> string" where
  "formatObjectName name = ''_'' @ name @ ''__'' @ rev name"

fun isParseError :: "ParsedValue \<Rightarrow> bool" where
  "isParseError (ParseError a) = True"
| "isParseError v = False"

fun setArray :: "ParsedValue \<Rightarrow> ParsedValue" where
  "setArray (ParseError a) = ParseError True"
| "setArray (ParsedBase kw a) = ParsedBase kw True"
| "setArray (ParsedAlias v a) = ParsedAlias v True"
| "setArray (ParsedReference name a) = ParsedReference name True"
| "setArray (ParsedLiteral ps a) = ParsedLiteral ps True"

definition createErrorAttr :: "Warning \<Rightarrow> ParsedValue \<times> Warning list" where
  "createErrorAttr message = (ParseError False, [message])"

definition createBaseAttr :: "KeyWord \<Rightarrow> ParsedValue" where
  "createBaseAttr kw = ParsedBase kw False"

definition createLiteralAttr :: "string \<Rightarrow> ParsedValue" where
  "createLiteralAttr text = ParsedAlias text False"

definition createTypeRefAttr :: "string \<Rightarrow> ParsedValue \<times> Warning list" where
  "createTypeRefAttr text =
     (if CHR ''<'' \<in> set text then createErrorAttr (GenericType text)
      else (ParsedReference (formatObjectName text) False, []))"

fun parseTypeNode :: "TypeNode \<Rightarrow> ParsedValue list \<times> Warning list"
  and createUnionAttr :: "TypeNode list \<Rightarrow> ParsedValue list \<times> Warning list"
  and parsePropertyNode :: "Member \<Rightarrow> ParsedProperty option \<times> Warning list"
  and parseMembers :: "Member list \<Rightarrow> ParsedProperty option list \<times> Warning list"
where
  "parseTypeNode (KeywordType kw) = ([createBaseAttr kw], [])"
| "parseTypeNode (ArrayType elementType) =
     (case parseTypeNode elementType of (elementTypes, log) \<Rightarrow> (map setArray elementTypes, log))"
| "parseTypeNode (LiteralType text) = ([createLiteralAttr text], [])"
| "parseTypeNode (UnionType types) = createUnionAttr types"
| "parseTypeNode (TypeReferenceNode text) =
     (case createTypeRefAttr text of (a, log) \<Rightarrow> ([a], log))"
| "parseTypeNode (TypeLiteralNode members) =
     (case parseMembers members of (ps, log) \<Rightarrow> ([ParsedLiteral ps False], log))"
| "parseTypeNode (IntersectionType types) =
     (case createErrorAttr UnknownType of (a, log) \<Rightarrow> ([a], log))"
| "parseTypeNode (OtherType text) =
     (case createErrorAttr UnknownType of (a, log) \<Rightarrow> ([a], log))"
| "createUnionAttr [] = ([], [])"
| "createUnionAttr (t # types) =
     (case parseTypeNode t of (as, log) \<Rightarrow>
        case createUnionAttr types of (bs, log') \<Rightarrow> (as @ bs, log @ log'))"
| "parsePropertyNode OtherMember = (None, [])"
| "parsePropertyNode (PropertySignature name questionToken None) =
     (if name = [] then (None, [])
      else case createErrorAttr EmptyTypeNode of (a, log) \<Rightarrow>
        (if filter (\<lambda>a. \<not> isParseError a) [a] = [] then None
         else Some (ParsedProperty name (filter (\<lambda>a. \<not> isParseError a) [a]) questionToken), log))"
| "parsePropertyNode (PropertySignature name questionToken (Some typeNode)) =
     (if name = [] then (None, [])
      else case parseTypeNode typeNode of (attributes, log) \<Rightarrow>
        (if filter (\<lambda>a. \<not> isParseError a) attributes = [] then None
         else Some (ParsedProperty name (filter (\<lambda>a. \<not> isParseError a) attributes) questionToken), log))"
| "parseMembers [] = ([], [])"
| "parseMembers (m # members) =
     (case parsePropertyNode m of (p, log) \<Rightarrow>
        case parseMembers members of (ps, log') \<Rightarrow> (p # ps, log @ log'))"

definition parseTypeAliasNode :: "TypeNode \<Rightarrow> string \<Rightarrow> ParsedProperty option \<times> Warning list" where
  "parseTypeAliasNode typeNode typeAliasName =
     (case parseTypeNode typeNode of (attributes, log) \<Rightarrow>
        (if filter (\<lambda>a. \<not> isParseError a) attributes = [] then None
         else Some (ParsedProperty typeAliasName (filter (\<lambda>a. \<not> isParseError a) attributes) False), log))"

fun memberProperties :: "Member list \<Rightarrow> ParsedProperty list \<times> Warning list" where
  "memberProperties [] = ([], [])"
| "memberProperties (member # members) =
     (case parsePropertyNode member of (property, log) \<Rightarrow>
        case memberProperties members of (collected, log') \<Rightarrow>
          ((case property of None \<Rightarrow> collected | Some p \<Rightarrow> p # collected), log @ log'))"

fun intersectionProperties :: "TypeNode list \<Rightarrow> ParsedProperty list \<times> Warning list" where
  "intersectionProperties [] = ([], [])"
| "intersectionProperties (TypeLiteralNode members # types) =
     (case memberProperties members of (ps, log) \<Rightarrow>
        case intersectionProperties types of (qs, log') \<Rightarrow> (ps @ qs, log @ log'))"
| "intersectionProperties (subType # types) = intersectionProperties types"

fun addInterface :: "SchemaInterface \<Rightarrow> SchemaInterface list \<Rightarrow> SchemaInterface list" where
  "addInterface new [] = [new]"
| "addInterface new (existing # parsed) =
     (if objectName existing = objectName new
      then existing\<lparr>props := props existing @ props new\<rparr> # parsed
      else existing # addInterface new parsed)"

definition parseInterfaceNode ::
  "string \<Rightarrow> bool \<Rightarrow> Member list \<Rightarrow> SchemaInterface list \<Rightarrow> SchemaInterface list \<times> Warning list" where
  "parseInterfaceNode interfaceName exported members parsed =
     (case memberProperties members of (collected, log) \<Rightarrow>
        (addInterface \<lparr>objectName = formatObjectName interfaceName, props = collected,
            isExport = exported, kind = InterfaceDeclaration\<rparr> parsed, log))"

fun parsedTypeLiteralNode ::
  "string \<Rightarrow> bool \<Rightarrow> TypeNode \<Rightarrow> SchemaInterface list \<Rightarrow> SchemaInterface list \<times> Warning list" where
  "parsedTypeLiteralNode typeAliasName exported (TypeLiteralNode members) parsed =
     (case memberProperties members of (collected, log) \<Rightarrow>
        (addInterface \<lparr>objectName = formatObjectName typeAliasName, props = collected,
            isExport = exported, kind = TypeLiteralDeclaration\<rparr> parsed, log))"
| "parsedTypeLiteralNode typeAliasName exported (IntersectionType types) parsed =
     (case intersectionProperties types of (collected, log) \<Rightarrow>
        (addInterface \<lparr>objectName = formatObjectName typeAliasName, props = collected,
            isExport = exported, kind = TypeLiteralDeclaration\<rparr> parsed, log))"
| "parsedTypeLiteralNode typeAliasName exported (UnionType types) parsed =
     (case parseTypeAliasNode (UnionType types) typeAliasName of (property, log) \<Rightarrow>
        (addInterface \<lparr>objectName = formatObjectName typeAliasName,
            props = (case property of None \<Rightarrow> [] | Some p \<Rightarrow> [p]),
            isExport = exported, kind = TypeAliasDeclaration\<rparr> parsed, log))"
| "parsedTypeLiteralNode typeAliasName exported (LiteralType v) parsed =
     (case parseTypeAliasNode (LiteralType v) typeAliasName of (property, log) \<Rightarrow>
        (addInterface \<lparr>objectName = formatObjectName typeAliasName,
            props = (case property of None \<Rightarrow> [] | Some p \<Rightarrow> [p]),
            isExport = exported, kind = TypeAliasDeclaration\<rparr> parsed, log))"
| "parsedTypeLiteralNode typeAliasName exported typeNode parsed =
     (addInterface \<lparr>objectName = formatObjectName typeAliasName, props = [],
        isExport = exported, kind = TypeLiteralDeclaration\<rparr> parsed, [])"

fun parseNode :: "Statement list \<Rightarrow> SchemaInterface list \<Rightarrow> SchemaInterface list \<times> Warning list" where
  "parseNode [] parsed = (parsed, [])"
| "parseNode (InterfaceStatement name exported members # nodes) parsed =
     (case parseInterfaceNode name exported members parsed of (parsed', log) \<Rightarrow>
        case parseNode nodes parsed' of (parsed'', log') \<Rightarrow> (parsed'', log @ log'))"
| "parseNode (TypeAliasStatement name exported typeNode # nodes) parsed =
     (case parsedTypeLiteralNode name exported typeNode parsed of (parsed', log) \<Rightarrow>
        case parseNode nodes parsed' of (parsed'', log') \<Rightarrow> (parsed'', log @ log'))"
| "parseNode (OtherStatement # nodes) parsed = parseNode nodes parsed"

section \<open>The generated module\<close>

text \<open>
  \<open>generateExportCode\<close> prints the text of a module: for each parsed declaration a
  \<^verbatim>\<open>var\<close> statement with an object literal, and a call of \<^verbatim>\<open>Object.defineProperty\<close>
  that sets the kind of the declaration. \<open>valuesText\<close> and \<open>propsText\<close> are the \<^verbatim>\<open>map\<close>
  of \<^verbatim>\<open>valueToString\<close> and of \<^verbatim>\<open>propsToString\<close>, before the \<^verbatim>\<open>join\<close>. A \<^verbatim>\<open>null\<close> entry in
  the properties of an inline object type makes \<^verbatim>\<open>propsToString\<close> throw a TypeError
  (\<^verbatim>\<open>p.attribute\<close> of \<^verbatim>\<open>null\<close>), and so does the \<open>ParseError\<close> symbol in a template.

  The guard receives the objects that this text denotes once the module is loaded;
  the schemas of the sections on the guard are such objects.
\<close>

fun joinWith :: "string \<Rightarrow> string list \<Rightarrow> string" where
  "joinWith sep [] = []"
| "joinWith sep [x] = x"
| "joinWith sep (x # y # xs) = x @ sep @ joinWith sep (y # xs)"

definition quoted :: "string \<Rightarrow> string" where
  "quoted s = [CHR 0x27] @ s @ [CHR 0x27]"

definition boolText :: "bool \<Rightarrow> string" where
  "boolText b = (if b then ''true'' else ''false'')"

text \<open>The string values of the enumerations \<^verbatim>\<open>KeyWord\<close> and \<^verbatim>\<open>DeclarationType\<close>.\<close>

fun keywordText :: "KeyWord \<Rightarrow> string" where
  "keywordText StringKeyword = ''string_keyword''"
| "keywordText NumberKeyword = ''number_keyword''"
| "keywordText BooleanKeyword = ''boolean_keyword''"
| "keywordText UndefinedKeyword = ''undefined_keyword''"
| "keywordText NullKeyword = ''null_keyword''"
| "keywordText AnyKeyword = ''any_keyword''"
| "keywordText UnknownKeyword = ''unknown_keyword''"
| "keywordText NeverKeyword = ''never_keyword''"
| "keywordText BigKeyword = ''big_keyword''"
| "keywordText SymbolKeyword = ''symbol_keyword''"

fun declarationTypeText :: "DeclarationType \<Rightarrow> string" where
  "declarationTypeText InterfaceDeclaration = ''interface''"
| "declarationTypeText TypeLiteralDeclaration = ''typeLiteral''"
| "declarationTypeText TypeAliasDeclaration = ''typeAlias''"

definition valueTemplate :: "string \<Rightarrow> bool \<Rightarrow> string \<Rightarrow> string" where
  "valueTemplate v a valueType =
     ''{value:'' @ v @ '',isArray:'' @ boolText a @ '',valueType:'' @ quoted valueType @ ''}''"

fun valueText :: "ParsedValue \<Rightarrow> string outcome"
  and valuesText :: "ParsedValue list \<Rightarrow> string list outcome"
  and propsText :: "ParsedProperty option list \<Rightarrow> string list outcome"
where
  "valueText (ParseError a) = Throw TypeError"
| "valueText (ParsedBase kw a) = Return (valueTemplate (quoted (keywordText kw)) a ''baseType'')"
| "valueText (ParsedAlias text a) = Return (valueTemplate text a ''alias'')"
| "valueText (ParsedReference name a) = Return (valueTemplate name a ''typeReference'')"
| "valueText (ParsedLiteral ps a) =
     bind (propsText ps) (\<lambda>body.
       Return (valueTemplate (''{'' @ joinWith '','' body @ ''}'') a ''typeLiteral''))"
| "valuesText [] = Return []"
| "valuesText (v # vs) =
     bind (valueText v) (\<lambda>s. bind (valuesText vs) (\<lambda>ss. Return (s # ss)))"
| "propsText [] = Return []"
| "propsText (None # ps) = Throw TypeError"
| "propsText (Some (ParsedProperty k vs optional) # ps) =
     bind (valuesText vs) (\<lambda>vals.
       bind (propsText ps) (\<lambda>rest.
         Return ((k @ '':{isOptional:'' @ boolText optional @ '',get attribute() {return [''
                    @ joinWith '','' vals @ '']},key:'' @ quoted k @ ''}'') # rest)))"

definition propsToString :: "ParsedProperty option list \<Rightarrow> string outcome" where
  "propsToString ps = bind (propsText ps) (\<lambda>body. Return (joinWith '','' body))"

definition newline :: string where
  "newline = [CHR 0x0A]"

text \<open>
  The text printed for one declaration. \<open>exportAll\<close> is the \<open>isExport\<close> argument of the
  parser's constructor.
\<close>

definition declarationText :: "bool \<Rightarrow> SchemaInterface \<Rightarrow> string outcome" where
  "declarationText exportAll intf =
     bind (propsToString (map Some (props intf))) (\<lambda>body.
       Return (newline @ (if isExport intf \<or> exportAll then ''export'' else [])
          @ '' var '' @ objectName intf @ '' = { '' @ body @ ''};'' @ newline @ newline
          @ ''        Object.defineProperty('' @ objectName intf @ '','' @ quoted ''_DeclarationTypeKey''
          @ '',{'' @ newline
          @ ''           value: '' @ quoted (declarationTypeText (kind intf)) @ '','' @ newline
          @ ''           enumerable: false'' @ newline
          @ ''        });'' @ newline @ newline
          @ ''        ''))"

fun generateExportCode :: "bool \<Rightarrow> SchemaInterface list \<Rightarrow> string outcome" where
  "generateExportCode exportAll [] = Return []"
| "generateExportCode exportAll (intf # parsed) =
     bind (declarationText exportAll intf) (\<lambda>s.
       bind (generateExportCode exportAll parsed) (\<lambda>t. Return (s @ t)))"

text \<open>\<^verbatim>\<open>build\<close>: parse the top-level statements, then print.\<close>

definition build :: "bool \<Rightarrow> Statement list \<Rightarrow> string outcome" where
  "build exportAll nodes = generateExportCode exportAll (fst (parseNode nodes []))"

section \<open>Kinds of attribute value\<close>

text \<open>
  Base types and aliases are checked against the value; the two object kinds are
  not. \<open>accepts\<close> is \<open>isVerify\<close> of the check that \<open>verifyFields\<close> runs for an
  attribute value, and \<open>scalarDefault\<close> is what \<open>autoFillValue\<close> computes for one that
  needs no recursive call.
\<close>

fun scalarKind :: "AttributeValue \<Rightarrow> bool" where
  "scalarKind (BaseType kw a) = True"
| "scalarKind (Alias v a) = True"
| "scalarKind (TypeLiteral fs a) = False"
| "scalarKind (TypeReference name a) = False"

fun accepts :: "jsval \<Rightarrow> AttributeValue \<Rightarrow> bool" where
  "accepts v (BaseType kw a) = fst (checkBaseType v a kw)"
| "accepts v (Alias w a) = fst (checkAliasType v a w)"
| "accepts v (TypeLiteral fs a) = True"
| "accepts v (TypeReference name a) = True"

fun scalarDefault :: "AttributeValue \<Rightarrow> jsval" where
  "scalarDefault (BaseType kw a) = (if a then Arr [] [] else fillBaseType kw)"
| "scalarDefault (Alias v a) = (if a then Arr [] [] else fillAliasType v)"
| "scalarDefault (TypeLiteral fs a) = Arr [] []"
| "scalarDefault (TypeReference name a) = Arr [] []"

text \<open>
  A key that is none of the names every object inherits: \<^verbatim>\<open>key in target\<close> is then
  true of a plain object exactly when the object has the property. A property is
  flat when its attribute values are base types and aliases, at least one. No
  property of a schema is named \<^verbatim>\<open>__proto__\<close>: in the object literal that the
  generated module holds, \<^verbatim>\<open>__proto__: ...\<close> sets the prototype and adds no property.
  Under an inherited name a target that lacks the property has a method of its
  prototype, which fails every base type and alias; \<open>plainField\<close> allows such a name
  for a property that has no other attribute values.
\<close>

definition ordinaryKey :: "string \<Rightarrow> bool" where
  "ordinaryKey k = (k \<notin> set objectPrototypeNames)"

definition flatProperty :: "SchemaPropertyType \<Rightarrow> bool" where
  "flatProperty p = (fst p \<noteq> ''__proto__'' \<and> snd p \<noteq> [] \<and> list_all scalarKind (snd p))"

definition plainField :: "SchemaPropertyType \<Rightarrow> bool" where
  "plainField p =
     (if ordinaryKey (fst p) then True
      else fst p \<noteq> ''__proto__'' \<and> list_all scalarKind (snd p))"

fun memberName :: "Member \<Rightarrow> string" where
  "memberName (PropertySignature name questionToken typeNode) = name"
| "memberName OtherMember = []"

text \<open>
  A type all of whose alternatives are type references with type arguments: one
  such reference, a union of such types, or an array of one.
\<close>

fun allGeneric :: "TypeNode \<Rightarrow> bool" and allGenericList :: "TypeNode list \<Rightarrow> bool" where
  "allGeneric (TypeReferenceNode text) = (CHR ''<'' \<in> set text)"
| "allGeneric (UnionType types) = allGenericList types"
| "allGeneric (ArrayType elementType) = allGeneric elementType"
| "allGeneric (KeywordType kw) = False"
| "allGeneric (LiteralType text) = False"
| "allGeneric (IntersectionType types) = False"
| "allGeneric (TypeLiteralNode members) = False"
| "allGeneric (OtherType text) = False"
| "allGenericList [] = True"
| "allGenericList (t # types) = (allGeneric t \<and> allGenericList types)"

section \<open>Depth budgets and well-formed modules\<close>

text \<open>
  Two outcomes are related by \<open>refines\<close> when the second one is what the first one
  becomes with more budget: a call that was cut off may now end, a call that ended
  ends the same way. \<open>below\<close> lifts this to the recursive reference, and \<open>grows\<close>
  says that a call never removes anything from \<open>visited\<close>. A call has \<open>finished\<close>
  when it has returned or thrown.
\<close>

definition refines :: "'a outcome \<Rightarrow> 'a outcome \<Rightarrow> bool" where
  "refines r r' = (r = OutOfFuel \<or> r = r')"

definition below :: "guard_fn \<Rightarrow> guard_fn \<Rightarrow> bool" where
  "below g g' = (\<forall>t S a vis. refines (g t S a vis) (g' t S a vis))"

definition grows :: "guard_fn \<Rightarrow> bool" where
  "grows g = (\<forall>t S a vis r t' vis'. g t S a vis = Return (r, t', vis') \<longrightarrow> vis \<subseteq> vis')"

fun finished :: "'a outcome \<Rightarrow> bool" where
  "finished (Return x) = True"
| "finished (Throw e) = True"
| "finished OutOfFuel = False"
| "finished Outside = False"

text \<open>
  The keys of a JavaScript object are distinct, so those of a schema are, at every
  level. \<open>wellFormedEntries\<close> asks in addition that a property under a name that every
  object inherits has base types and aliases only. \<open>weightEntries\<close> counts the
  properties of a schema with those of its inline object types.
\<close>

fun distinctKeys :: "AttributeValue \<Rightarrow> bool"
  and nestedList :: "AttributeValue list \<Rightarrow> bool"
  and nestedEntries :: "SchemaPropertyType list \<Rightarrow> bool"
where
  "distinctKeys (TypeLiteral fs a) =
     (distinct (map fst fs) \<and> list_all plainField fs \<and> nestedEntries fs)"
| "distinctKeys (BaseType kw a) = True"
| "distinctKeys (Alias v a) = True"
| "distinctKeys (TypeReference name a) = True"
| "nestedList [] = True"
| "nestedList (a # as) = (distinctKeys a \<and> nestedList as)"
| "nestedEntries [] = True"
| "nestedEntries ((k, alts) # fs) = (nestedList alts \<and> nestedEntries fs)"

fun weight :: "AttributeValue \<Rightarrow> nat"
  and weightList :: "AttributeValue list \<Rightarrow> nat"
  and weightEntries :: "SchemaPropertyType list \<Rightarrow> nat"
where
  "weight (TypeLiteral fs a) = Suc (weightEntries fs)"
| "weight (BaseType kw a) = 0"
| "weight (Alias v a) = 0"
| "weight (TypeReference name a) = 0"
| "weightList [] = 0"
| "weightList (a # as) = weight a + weightList as"
| "weightEntries [] = 0"
| "weightEntries ((k, alts) # fs) = Suc (weightList alts + weightEntries fs)"

definition wellFormedEntries :: "SchemaPropertyType list \<Rightarrow> bool" where
  "wellFormedEntries fs =
     (distinct (map fst fs) \<and> list_all plainField fs \<and> nestedEntries fs)"

text \<open>
  The guard of a declaration of kind \<^verbatim>\<open>typeAlias\<close> fills the last attribute value of
  its first entry. When that is a reference to another declaration of kind
  \<^verbatim>\<open>typeAlias\<close>, the guard goes on there, and so on: \<open>aliasEnds n env S\<close> says that this
  chain, which starts at \<open>S\<close>, leaves the declarations of kind \<^verbatim>\<open>typeAlias\<close> after at most
  \<open>n\<close> of them. A module is well formed when the entries of its object-shaped
  declarations are, and the chain of each of its declarations of kind \<^verbatim>\<open>typeAlias\<close>
  ends within as many steps as the module has declarations, which every chain
  without a cycle does.
\<close>

primrec aliasEnds :: "nat \<Rightarrow> bindings \<Rightarrow> GuarderType \<Rightarrow> bool" where
  "aliasEnds 0 env S = False"
| "aliasEnds (Suc n) env S =
     (case entries S of
        [] \<Rightarrow> True
      | p # ps \<Rightarrow>
          (if snd p = [] then True
           else case last (snd p) of
               TypeReference name a \<Rightarrow>
                 (if a then True
                  else case map_of env name of
                      None \<Rightarrow> True
                    | Some D \<Rightarrow>
                        if declarationType D = Some TypeAliasDeclaration then aliasEnds n env D
                        else True)
             | _ \<Rightarrow> True))"

definition wellFormedSchema :: "bindings \<Rightarrow> GuarderType \<Rightarrow> bool" where
  "wellFormedSchema env S =
     (if declarationType S = Some TypeAliasDeclaration
      then nestedEntries (entries S) \<and> aliasEnds (Suc (length env)) env S
      else wellFormedEntries (entries S))"

definition wellFormedModule :: "bindings \<Rightarrow> bool" where
  "wellFormedModule env = list_all (\<lambda>b. wellFormedSchema env (snd b)) env"

section \<open>Schemas used below\<close>

text \<open>\<^verbatim>\<open>type Role = 'admin' | 'user'\<close>: one synthetic property, named after the alias.\<close>

definition RoleSchema :: GuarderType where
  "RoleSchema = \<lparr>declarationType = Some TypeAliasDeclaration,
     entries = [(''Role'', [Alias (Str ''admin'') False, Alias (Str ''user'') False])]\<rparr>"

text \<open>\<^verbatim>\<open>interface Box { a: { b: string } }\<close>\<close>

definition BoxSchema :: GuarderType where
  "BoxSchema = \<lparr>declarationType = Some InterfaceDeclaration,
     entries = [(''a'', [TypeLiteral [(''b'', [BaseType StringKeyword False])] False])]\<rparr>"

text \<open>\<^verbatim>\<open>interface Tree { left: Tree; right: Tree; val: number }\<close>\<close>

definition TreeSchema :: GuarderType where
  "TreeSchema = \<lparr>declarationType = Some InterfaceDeclaration,
     entries = [(''left'', [TypeReference ''Tree'' False]),
                (''right'', [TypeReference ''Tree'' False]),
                (''val'', [BaseType NumberKeyword False])]\<rparr>"

text \<open>\<^verbatim>\<open>interface Node { value: number; next: Node }\<close>\<close>

definition NodeSchema :: GuarderType where
  "NodeSchema = \<lparr>declarationType = Some InterfaceDeclaration,
     entries = [(''value'', [BaseType NumberKeyword False]),
                (''next'', [TypeReference ''Node'' False])]\<rparr>"

text \<open>\<^verbatim>\<open>interface A { b: B }\<close> and \<^verbatim>\<open>interface B { a: A }\<close>\<close>

definition CycleA :: GuarderType where
  "CycleA = \<lparr>declarationType = Some InterfaceDeclaration,
     entries = [(''b'', [TypeReference ''B'' False])]\<rparr>"

definition CycleB :: GuarderType where
  "CycleB = \<lparr>declarationType = Some InterfaceDeclaration,
     entries = [(''a'', [TypeReference ''A'' False])]\<rparr>"

definition cycleBindings :: bindings where
  "cycleBindings = [(''A'', CycleA), (''B'', CycleB)]"

text \<open>\<^verbatim>\<open>type X = 'a' | X\<close>, which the parser accepts: it reads syntax only.\<close>

definition LoopAlias :: GuarderType where
  "LoopAlias = \<lparr>declarationType = Some TypeAliasDeclaration,
     entries = [(''X'', [Alias (Str ''a'') False, TypeReference ''X'' False])]\<rparr>"

text \<open>
  \<^verbatim>\<open>interface Merge { k: { a: string } | { b: number } }\<close>, and the same with the first
  branch of the union only.
\<close>

definition MergeSchema :: GuarderType where
  "MergeSchema = \<lparr>declarationType = Some InterfaceDeclaration,
     entries = [(''k'', [TypeLiteral [(''a'', [BaseType StringKeyword False])] False,
                         TypeLiteral [(''b'', [BaseType NumberKeyword False])] False])]\<rparr>"

definition FirstOnlySchema :: GuarderType where
  "FirstOnlySchema = \<lparr>declarationType = Some InterfaceDeclaration,
     entries = [(''k'', [TypeLiteral [(''a'', [BaseType StringKeyword False])] False])]\<rparr>"

text \<open>
  \<^verbatim>\<open>{name: string | 'default', age: number | 1, tags: string[]}\<close>
\<close>

definition UserSchema :: GuarderType where
  "UserSchema = \<lparr>declarationType = Some TypeLiteralDeclaration,
     entries = [(''name'', [BaseType StringKeyword False, Alias (Str ''default'') False]),
                (''age'', [BaseType NumberKeyword False, Alias (Num 1) False]),
                (''tags'', [BaseType StringKeyword True])]\<rparr>"


text \<open>
  \<^verbatim>\<open>type Shape = Circle | Square\<close> with \<^verbatim>\<open>interface Circle { r: number; next: Shape }\<close> and
  \<^verbatim>\<open>interface Square { side: number; next: Shape }\<close>
\<close>

definition ShapeSchema :: GuarderType where
  "ShapeSchema = \<lparr>declarationType = Some TypeAliasDeclaration,
     entries = [(''Shape'', [TypeReference ''Circle'' False, TypeReference ''Square'' False])]\<rparr>"

definition CircleSchema :: GuarderType where
  "CircleSchema = \<lparr>declarationType = Some InterfaceDeclaration,
     entries = [(''r'', [BaseType NumberKeyword False]), (''next'', [TypeReference ''Shape'' False])]\<rparr>"

definition SquareSchema :: GuarderType where
  "SquareSchema = \<lparr>declarationType = Some InterfaceDeclaration,
     entries = [(''side'', [BaseType NumberKeyword False]), (''next'', [TypeReference ''Shape'' False])]\<rparr>"

definition shapeBindings :: bindings where
  "shapeBindings = [(''Shape'', ShapeSchema), (''Circle'', CircleSchema), (''Square'', SquareSchema)]"

text \<open>
  \<^verbatim>\<open>export interface Cart { items: Promise<string>; name: string }\<close>, and the same
  field inside an inline object type:
  \<^verbatim>\<open>export interface Cart { inner: { items: Promise<string> }; name: string }\<close>
\<close>

definition CartSource :: "Statement list" where
  "CartSource = [InterfaceStatement ''Cart'' True
      [PropertySignature ''items'' False (Some (TypeReferenceNode ''Promise<string>'')),
       PropertySignature ''name'' False (Some (KeywordType StringKeyword))]]"

definition NestedSource :: "Statement list" where
  "NestedSource = [InterfaceStatement ''Cart'' True
      [PropertySignature ''inner'' False
         (Some (TypeLiteralNode
            [PropertySignature ''items'' False (Some (TypeReferenceNode ''Promise<string>''))])),
       PropertySignature ''name'' False (Some (KeywordType StringKeyword))]]"

text \<open>
  \<^verbatim>\<open>interface Sized { length: 'short' | 'long' }\<close> and \<^verbatim>\<open>interface T { constructor: T }\<close>
\<close>

definition SizedSchema :: GuarderType where
  "SizedSchema = \<lparr>declarationType = Some InterfaceDeclaration,
     entries = [(''length'', [Alias (Str ''short'') False, Alias (Str ''long'') False])]\<rparr>"

definition ConstructorSchema :: GuarderType where
  "ConstructorSchema = \<lparr>declarationType = Some InterfaceDeclaration,
     entries = [(''constructor'', [TypeReference ''T'' False])]\<rparr>"

section \<open>Objects and their properties\<close>

lemma map_of_assign: "map_of (assign k v ps) k' = (if k' = k then Some v else map_of ps k')"
  by (induction ps) auto

lemma assign_same: "map_of ps k = Some v \<Longrightarrow> assign k v ps = ps"
  by (induction ps) (auto split: if_splits)

lemma assign_absent: "k \<notin> fst ` set ps \<Longrightarrow> assign k v ps = ps @ [(k, v)]"
  by (induction ps) auto

lemma keys_assign: "fst ` set (assign k v ps) = insert k (fst ` set ps)"
proof -
  have "dom (map_of (assign k v ps)) = insert k (dom (map_of ps))"
    by (auto simp: map_of_assign split: if_splits)
  then show ?thesis by (simp add: dom_map_of_conv_image_fst)
qed

lemma own_iff: "k \<in> fst ` set ps \<longleftrightarrow> map_of ps k \<noteq> None"
  by (simp add: map_of_eq_None_iff)

lemma proto_not_ordinary: "ordinaryKey k \<Longrightarrow> k \<noteq> ''__proto__''"
  by (auto simp: ordinaryKey_def objectPrototypeNames_def)

lemma has_key_Obj:
  "has_key k (Obj ps) = Return (k \<in> fst ` set ps \<or> k \<in> set objectPrototypeNames)"
  by (simp add: has_key_def)

lemma has_key_ordinary: "ordinaryKey k \<Longrightarrow> has_key k (Obj ps) = Return (k \<in> fst ` set ps)"
  by (simp add: has_key_def ordinaryKey_def)

lemma has_key_own: "map_of ps k = Some v \<Longrightarrow> has_key k (Obj ps) = Return True"
  by (simp add: has_key_def own_iff)

lemma get_prop_own: "map_of ps k = Some v \<Longrightarrow> get_prop (Obj ps) k = Return v"
  by (simp add: get_prop_def)

lemma set_prop_ordinary: "ordinaryKey k \<Longrightarrow> set_prop (Obj ps) k v = Return (Obj (assign k v ps))"
  by (simp add: set_prop_def proto_not_ordinary)

lemma set_prop_own: "map_of ps k = Some w \<Longrightarrow> set_prop (Obj ps) k v = Return (Obj (assign k v ps))"
  by (simp add: set_prop_def own_iff)

lemma set_prop_named: "k \<noteq> ''__proto__'' \<Longrightarrow> set_prop (Obj ps) k v = Return (Obj (assign k v ps))"
  by (simp add: set_prop_def)

lemma get_prop_present:
  "k \<noteq> ''__proto__'' \<Longrightarrow> \<exists>v. get_prop (Obj ps) k = Return v"
  by (simp add: get_prop_def inherited_def split: option.splits)

lemma has_key_Return: "has_key k t = Return b \<Longrightarrow> isObject t"
  by (cases t) (auto simp: has_key_def)

lemma bind_Return_iff:
  "bind m f = Return y \<longleftrightarrow> (\<exists>x. m = Return x \<and> f x = Return y)"
  by (cases m) auto

lemma set_prop_frame:
  assumes "set_prop t k v = Return t'"
  shows "isObject t' \<and> isArrayValue t' = isArrayValue t
       \<and> (\<forall>k'. k' \<noteq> k \<longrightarrow> map_of (properties t') k' = map_of (properties t) k')"
proof (cases t)
  case (Obj ps)
  with assms show ?thesis
    by (auto simp: set_prop_def map_of_assign split: if_splits)
next
  case (Arr xs ps)
  with assms show ?thesis
    by (auto simp: set_prop_def map_of_assign bind_Return_iff split: if_splits option.splits)
qed (use assms in \<open>auto simp: set_prop_def\<close>)

text \<open>
  Three runs that meet what a target has without it being data. An array has a
  \<^verbatim>\<open>length\<close>: the guard finds the key present, the number fails both literals, and
  assigning the default \<^verbatim>\<open>'long'\<close> to the length throws a RangeError. An empty object
  inherits \<^verbatim>\<open>toString\<close>: the guard finds the key present, the method is not a string,
  and the object gets a property of its own. It inherits \<^verbatim>\<open>constructor\<close> too: against
  \<^verbatim>\<open>interface T { constructor: T }\<close> the guard finds the key present and descends into
  the function \<^verbatim>\<open>Object\<close>, which is \<open>Outside\<close>.
\<close>

lemma array_length_assignment_throws:
  "guard 1 [] (Arr [Num 1, Num 2] []) SizedSchema False = Throw RangeError"
  by code_simp

lemma inherited_method_is_replaced:
  "guard 1 [] (Obj []) \<lparr>declarationType = Some InterfaceDeclaration,
       entries = [(''toString'', [BaseType StringKeyword False])]\<rparr> False
     = Return (Obj [(''toString'', Str [])])"
  by code_simp

lemma inherited_key_is_present:
  "has_key ''constructor'' (Obj []) = Return True
   \<and> get_prop (Obj []) ''constructor'' = Return (Native ''Object.prototype.constructor'')
   \<and> guard 2 [(''T'', ConstructorSchema)] (Obj []) ConstructorSchema False = Outside"
  by code_simp

section \<open>The array hint\<close>

text \<open>
  C10. With the \<open>isArray\<close> argument true, \<open>applySchemaGuard\<close> returns a new empty array
  at once, whatever the target and the schema are, and the target is left as it was.
  One unit of depth budget, the call itself, is enough.
\<close>

theorem array_hint_returns_empty_array:
  "applySchemaGuard (Suc n) env target targetSchema True visited = Return (Arr [] [], target, visited)
   \<and> guard (Suc n) env target targetSchema True = Return (Arr [] [])"
  by (simp add: guard_def guardWith_def)

section \<open>Literal unions\<close>

text \<open>
  C7. For a declaration of kind \<^verbatim>\<open>typeAlias\<close> the guard does not loop over keys: it
  returns the default of the last attribute value of the first entry, whatever the
  other entries and the target are. When that attribute value is a literal, the
  result is the literal itself, a scalar. For \<open>Role\<close> the guard of \<^verbatim>\<open>undefined\<close>
  is \<^verbatim>\<open>'user'\<close>.
\<close>

theorem literal_union_returns_default:
  assumes "declarationType S = Some TypeAliasDeclaration"
    and "entries S = (k, alts) # rest"
    and "attribute env (k, alts) = Return alts"
    and "alts \<noteq> []"
    and "last alts = Alias v False"
  shows "guard (Suc n) env target S False = Return v"
  using assms by (simp add: guard_def guardWith_def autoFillValue_def fillAliasType_def)

theorem literal_union_returns_default_witness:
  "guard (Suc 0) [] Undefined RoleSchema False = Return (Str ''user'')"
  using literal_union_returns_default [of RoleSchema "''Role''"
      "[Alias (Str ''admin'') False, Alias (Str ''user'') False]" "[]" "[]" "Str ''user''" 0 Undefined]
  by (simp add: RoleSchema_def attribute_def)

lemma typeAlias_target_irrelevant:
  assumes "declarationType S = Some TypeAliasDeclaration"
  shows "guard n env target S isArr = guard n env target' S isArr"
proof (cases n)
  case 0
  then show ?thesis by (simp add: guard_def guardWith_def)
next
  case (Suc m)
  show ?thesis
  proof (cases "entries S")
    case Nil
    with Suc assms show ?thesis by (simp add: guard_def guardWith_def)
  next
    case (Cons p ps)
    have "bind (bind (autoFillValue (applySchemaGuard m env) env p {})
                 (\<lambda>(v, visited'). Return (v, target, visited')))
            (\<lambda>(returned, target', visited'). Return returned)
        = bind (bind (autoFillValue (applySchemaGuard m env) env p {})
                 (\<lambda>(v, visited'). Return (v, target', visited')))
            (\<lambda>(returned, target', visited'). Return returned)"
      by (cases "autoFillValue (applySchemaGuard m env) env p {}") auto
    with Suc Cons assms show ?thesis by (simp add: guard_def guardWith_def)
  qed
qed

lemma scalar_bound: "scalarKind a \<Longrightarrow> bound env a"
  by (cases a) auto

text \<open>
  C9. For a declaration of kind \<^verbatim>\<open>typeAlias\<close> whose first entry is a union of
  literals and base types, the guard returns the default of the last of them for
  every target: the last literal itself when that is a literal, also for a target
  that is one of the literals, so the guard of \<^verbatim>\<open>'admin'\<close> against \<open>Role\<close> is
  \<^verbatim>\<open>'user'\<close>. And for any declaration of kind \<^verbatim>\<open>typeAlias\<close>, any depth budget and either
  value of the \<open>isArray\<close> argument, two targets give the same outcome.
\<close>

theorem literal_union_ignores_target:
  assumes "declarationType S = Some TypeAliasDeclaration"
    and "entries S = (k, alts) # rest"
    and "alts \<noteq> []"
    and "list_all scalarKind alts"
  shows "guard (Suc n) env target S False = Return (scalarDefault (last alts))
       \<and> (\<forall>v. last alts = Alias v False \<longrightarrow> guard (Suc n) env target S False = Return v)
       \<and> guard m env target S isArr = guard m env target' S isArr"
proof -
  from assms(3,4) have "list_all (bound env) alts" and last: "scalarKind (last alts)"
    by (auto simp: list_all_iff intro: scalar_bound)
  then have "attribute env (k, alts) = Return alts" by (simp add: attribute_def)
  with assms(3) last
  have fill: "autoFillValue (applySchemaGuard n env) env (k, alts) {} = Return (scalarDefault (last alts), {})"
    by (cases "last alts") (auto simp: autoFillValue_def)
  with assms(1,2) have run: "guard (Suc n) env target S False = Return (scalarDefault (last alts))"
    by (simp add: guard_def guardWith_def)
  then have "\<forall>v. last alts = Alias v False \<longrightarrow> guard (Suc n) env target S False = Return v"
    by (simp add: fillAliasType_def)
  moreover have "guard m env target S isArr = guard m env target' S isArr"
    using assms(1) by (rule typeAlias_target_irrelevant)
  ultimately show ?thesis using run by simp
qed

theorem literal_union_ignores_target_witness:
  "guard 1 [] (Str ''admin'') RoleSchema False = Return (Str ''user'')
   \<and> guard 1 [] (Str ''user'') RoleSchema False = Return (Str ''user'')
   \<and> guard 1 [] (Obj [(''Role'', Str ''admin'')]) RoleSchema False = Return (Str ''user'')
   \<and> guard 0 [] (Str ''admin'') RoleSchema True = guard 0 [] Undefined RoleSchema True"
  using
    literal_union_ignores_target [of RoleSchema "''Role''"
      "[Alias (Str ''admin'') False, Alias (Str ''user'') False]" "[]"
      0 "[]" "Str ''admin''" 0 True Undefined]
    literal_union_ignores_target [of RoleSchema "''Role''"
      "[Alias (Str ''admin'') False, Alias (Str ''user'') False]" "[]"
      0 "[]" "Str ''user''" 0 True Undefined]
    literal_union_ignores_target [of RoleSchema "''Role''"
      "[Alias (Str ''admin'') False, Alias (Str ''user'') False]" "[]"
      0 "[]" "Obj [(''Role'', Str ''admin'')]" 0 True Undefined]
  by (simp add: RoleSchema_def fillAliasType_def)

section \<open>Generated defaults\<close>







section \<open>Values of the wrong shape\<close>

text \<open>
  C1. The claim is that the guard never throws. A number where an inline object
  type is declared makes it throw: \<open>checkTypeLiteral\<close> passes the number on as the
  target, and \<^verbatim>\<open>key in target\<close> is a TypeError for a number.
\<close>

theorem box_scalar_throws:
  "guard 2 [] (Obj [(''a'', Num 5)]) BoxSchema False = Throw TypeError"
  by code_simp

section \<open>The loop over the entries\<close>

text \<open>
  The loop assigns to the keys of the entries it visits and to nothing else: when it
  returns, the target is an object or an array as before, and every other named
  property is as it was.
\<close>

lemma guardEntries_frame:
  "guardEntries g env es t visited = Return (t', visited') \<Longrightarrow>
   isObject t' = isObject t \<and> isArrayValue t' = isArrayValue t \<and>
   (\<forall>k. k \<notin> fst ` set es \<longrightarrow> map_of (properties t') k = map_of (properties t) k)"
proof (induction es arbitrary: t visited)
  case Nil
  then show ?case by simp
next
  case (Cons p rest)
  from Cons.prems obtain present where hk: "has_key (fst p) t = Return present"
    by (auto simp: bind_Return_iff)
  then have obj: "isObject t" by (rule has_key_Return)
  have step: "isObject t' = isObject t \<and> isArrayValue t' = isArrayValue t \<and>
      (\<forall>k. k \<notin> fst ` set (p # rest) \<longrightarrow> map_of (properties t') k = map_of (properties t) k)"
    if set: "set_prop t (fst p) v = Return t1"
      and run: "guardEntries g env rest t1 vis1 = Return (t', visited')" for v t1 vis1
    using Cons.IH [OF run] set_prop_frame [OF set] obj by auto
  show ?case
  proof (cases present)
    case True
    with Cons.prems hk obtain v t1 vis1 where
      "set_prop t (fst p) v = Return t1" "guardEntries g env rest t1 vis1 = Return (t', visited')"
      by (auto simp: bind_Return_iff)
    then show ?thesis by (rule step)
  next
    case False
    with Cons.prems hk obtain attrs where
      at: "attribute env p = Return attrs" and ne: "attrs \<noteq> []"
      by (auto simp: bind_Return_iff split: if_splits)
    show ?thesis
    proof (cases "visited_has visited (last attrs)")
      case True
      with Cons.prems hk False at ne have "set_prop t (fst p) (Obj []) = Return t'"
        by (auto simp: bind_Return_iff)
      from set_prop_frame [OF this] obj show ?thesis by auto
    next
      case nv: False
      with Cons.prems hk False at ne obtain v t1 vis1 where
        "set_prop t (fst p) v = Return t1" "guardEntries g env rest t1 vis1 = Return (t', visited')"
        by (auto simp: bind_Return_iff)
      then show ?thesis by (rule step)
    qed
  qed
qed

section \<open>Completeness\<close>

text \<open>
  C3. The claim is that every field of the schema is a key of the result. In the
  branch of a visited schema the loop over the entries returns, so the fields after
  it are never filled: the guard of \<^verbatim>\<open>{}\<close> against \<open>Tree\<close> has no key \<open>val\<close>.
\<close>

theorem tree_misses_val:
  "guard 3 [(''Tree'', TreeSchema)] (Obj []) TreeSchema False =
     Return (Obj [(''left'', Obj [(''left'', Obj [])]), (''right'', Obj [])])
   \<and> has_key ''val'' (Obj [(''left'', Obj [(''left'', Obj [])]), (''right'', Obj [])]) = Return False"
  by code_simp

section \<open>Base types and aliases\<close>

lemma attribute_scalar: "list_all scalarKind alts \<Longrightarrow> attribute env (k, alts) = Return alts"
  by (auto simp: attribute_def list_all_iff scalar_bound)

lemma scalar_not_visited: "scalarKind a \<Longrightarrow> \<not> visited_has visited a \<and> visited_add visited a = visited"
  by (cases a) auto

lemma verifyFields_scalar:
  "list_all scalarKind alts \<Longrightarrow>
   verifyFields g env alts v flag = Return (if list_ex (accepts v) alts then True else flag, v)"
proof (induction alts)
  case Nil
  then show ?case by simp
next
  case (Cons a alts)
  then show ?case
    by (cases a) (auto simp: checkBaseType_def checkAliasType_def split: KeyWord.splits if_splits)
qed

lemma autoFillValue_scalar:
  "alts \<noteq> [] \<Longrightarrow> list_all scalarKind alts \<Longrightarrow>
   autoFillValue g env (k, alts) visited = Return (scalarDefault (last alts), visited)"
proof -
  assume a: "alts \<noteq> []" "list_all scalarKind alts"
  then have "scalarKind (last alts)" by (simp add: list_all_iff)
  with a show ?thesis
    by (cases "last alts") (auto simp: autoFillValue_def attribute_scalar)
qed

lemma verifyAndFillField_scalar:
  "alts \<noteq> [] \<Longrightarrow> list_all scalarKind alts \<Longrightarrow>
   verifyAndFillField g env v (k, alts) visited =
     Return (if list_ex (accepts v) alts then v else scalarDefault (last alts), visited)"
  by (simp add: verifyAndFillField_def attribute_scalar verifyFields_scalar autoFillValue_scalar)

lemma verifyFields_first_scalar:
  "list_all scalarKind before \<Longrightarrow> \<not> list_ex (accepts v) before \<Longrightarrow>
   scalarKind item \<Longrightarrow> accepts v item \<Longrightarrow>
   verifyFields g env (before @ item # after) v flag = Return (True, v)"
proof (induction before)
  case Nil
  then show ?case
    by (cases item) (auto simp: checkBaseType_def checkAliasType_def split: KeyWord.splits if_splits)
next
  case (Cons a before)
  then show ?case
    by (cases a) auto
qed

lemma bind_flag:
  "bind (bind m (\<lambda>x. Return (True, h x))) (\<lambda>(b, v'). F v' (b \<or> flag))
   = bind (bind m (\<lambda>x. Return (True, h x))) (\<lambda>(b, v'). F v' True)"
  by (cases m) auto

lemma checkTypeLiteral_flag:
  "bind (checkTypeLiteral g v a fs) (\<lambda>(b, v'). F v' (b \<or> flag))
   = bind (checkTypeLiteral g v a fs) (\<lambda>(b, v'). F v' True)"
  using bind_flag [of "forEachGuard g (elements v) (inline fs)" "with_elements v" F flag]
    bind_flag [of "g v (inline fs) False {}" "\<lambda>(returned, target', visited'). target'" F flag]
  by (simp add: checkTypeLiteral_def case_prod_unfold)

lemma checkTypeReference_flag:
  "bind (checkTypeReference g env v a name) (\<lambda>(b, v'). F v' (b \<or> flag))
   = bind (checkTypeReference g env v a name) (\<lambda>(b, v'). F v' True)"
proof (cases "map_of env name")
  case None
  then show ?thesis by (simp add: checkTypeReference_def)
next
  case (Some schema)
  then show ?thesis
    using bind_flag [of "forEachGuard g (elements v) schema" "with_elements v" F flag]
      bind_flag [of "g v schema False {}" "\<lambda>(returned, target', visited'). target'" F flag]
    by (simp add: checkTypeReference_def case_prod_unfold)
qed

lemma method_fails: "scalarKind a \<Longrightarrow> \<not> accepts (Native name) a"
  by (cases a) (auto simp: checkBaseType_def checkAliasType_def split: KeyWord.splits)

lemma attribute_after:
  "list_all scalarKind before \<Longrightarrow> scalarKind item \<Longrightarrow>
   attribute env (k, before @ item # after) =
     (if list_all (bound env) after then Return (before @ item # after) else Throw ReferenceError)"
  by (auto simp: attribute_def list_all_iff scalar_bound)

text \<open>
  C6, as the claim states it, fails: the two object checks do not leave the loop, so
  an alternative after the first one that passed still changes the result. With the
  union \<^verbatim>\<open>{ a: string } | { b: number }\<close> an empty object gets both keys; with the
  first branch alone it gets \<open>a\<close> only.
\<close>

theorem later_object_alternative_changes_result:
  "guard 2 [] (Obj [(''k'', Obj [])]) MergeSchema False =
     Return (Obj [(''k'', Obj [(''a'', Str []), (''b'', Num 0)])])
   \<and> guard 2 [] (Obj [(''k'', Obj [])]) FirstOnlySchema False =
     Return (Obj [(''k'', Obj [(''a'', Str [])])])"
  by code_simp

text \<open>
  C6, amended. Let the present value pass a base type or an alias of the property,
  and let every attribute value before the first such one be a base type or an alias
  (which the value fails). When every reference after it names a declaration of the
  module, that first match wins: \<open>verifyAndFillField\<close> returns the value as it is,
  whatever follows in the list, and the loop over the entries leaves a plain object
  that has the key exactly as it was. When some reference after it names no
  declaration, reading the list of attribute values throws a ReferenceError.
\<close>

theorem first_scalar_match_wins:
  assumes "list_all scalarKind before"
    and "\<not> list_ex (accepts v) before"
    and "scalarKind item"
    and "accepts v item"
  shows "verifyAndFillField g env v (k, before @ item # after) visited =
           (if list_all (bound env) after then Return (v, visited) else Throw ReferenceError)
       \<and> (map_of ps k = Some v \<and> list_all (bound env) after \<longrightarrow>
            guardEntries g env ((k, before @ item # after) # rest) (Obj ps) visited =
              guardEntries g env rest (Obj ps) visited)"
proof -
  have field: "verifyAndFillField g env v (k, before @ item # after) visited =
           (if list_all (bound env) after then Return (v, visited) else Throw ReferenceError)"
    using assms
    by (simp add: verifyAndFillField_def attribute_after verifyFields_first_scalar)
  have "guardEntries g env ((k, before @ item # after) # rest) (Obj ps) visited =
          guardEntries g env rest (Obj ps) visited"
    if own: "map_of ps k = Some v" and bnd: "list_all (bound env) after"
    using field bnd
    by (simp add: has_key_own [OF own] get_prop_own [OF own] set_prop_own [OF own]
        assign_same [OF own])
  with field show ?thesis by simp
qed

theorem first_scalar_match_wins_witness:
  "verifyAndFillField (applySchemaGuard 0 []) [] (Str ''inactive'')
     (''status'', [BaseType NumberKeyword False, Alias (Str ''inactive'') False,
                   BaseType StringKeyword False, TypeLiteral [] False]) {}
   = Return (Str ''inactive'', {})
   \<and> guardEntries (applySchemaGuard 0 []) []
       [(''status'', [BaseType NumberKeyword False, Alias (Str ''inactive'') False,
                      BaseType StringKeyword False, TypeLiteral [] False])]
       (Obj [(''id'', Num 7), (''status'', Str ''inactive'')]) {}
     = Return (Obj [(''id'', Num 7), (''status'', Str ''inactive'')], {})
   \<and> verifyAndFillField (applySchemaGuard 0 []) [] (Str ''x'')
       (''d'', [BaseType StringKeyword False, TypeReference ''Date'' False]) {}
     = Throw ReferenceError"
  using
    first_scalar_match_wins [of "[BaseType NumberKeyword False]" "Str ''inactive''"
      "Alias (Str ''inactive'') False" "applySchemaGuard 0 []" "[]" "''status''"
      "[BaseType StringKeyword False, TypeLiteral [] False]" "{}"
      "[(''id'', Num 7), (''status'', Str ''inactive'')]" "[]"]
    first_scalar_match_wins [of "[]" "Str ''x''" "BaseType StringKeyword False"
      "applySchemaGuard 0 []" "[]" "''d''" "[TypeReference ''Date'' False]" "{}" "[]" "[]"]
  by (simp add: checkBaseType_def checkAliasType_def)

section \<open>Idempotence\<close>

lemma guardEntries_flat_returns:
  "list_all flatProperty es \<Longrightarrow>
   \<exists>ps'. guardEntries g env es (Obj ps) visited = Return (Obj ps', visited)"
proof (induction es arbitrary: ps)
  case Nil
  then show ?case by simp
next
  case (Cons p rest)
  obtain k alts where p: "p = (k, alts)" by (cases p)
  from Cons.prems have rest: "list_all flatProperty rest" and "flatProperty p" by simp_all
  with p have key: "k \<noteq> ''__proto__''" and fl: "alts \<noteq> []" "list_all scalarKind alts"
    by (simp_all add: flatProperty_def)
  from fl have last: "scalarKind (last alts)" by (simp add: list_all_iff)
  have step: "\<And>v. \<exists>ps'. guardEntries g env rest (Obj (assign k v ps)) visited = Return (Obj ps', visited)"
    using Cons.IH [OF rest] by blast
  from get_prop_present [OF key] obtain v where v: "get_prop (Obj ps) k = Return v" by blast
  show ?case
  proof (cases "k \<in> fst ` set ps \<or> k \<in> set objectPrototypeNames")
    case False
    then show ?thesis
      using p fl last key step
      by (simp add: has_key_Obj attribute_scalar scalar_not_visited autoFillValue_scalar
          set_prop_named)
  next
    case True
    then show ?thesis
      using p fl key step v
      by (simp add: has_key_Obj verifyAndFillField_scalar set_prop_named)
  qed
qed

lemma fixed_point:
  "w = (if list_ex (accepts v) alts then v else d) \<Longrightarrow> (if list_ex (accepts w) alts then w else d) = w"
  by (auto split: if_splits)

lemma guardEntries_flat_idem:
  "list_all flatProperty es \<Longrightarrow> distinct (map fst es) \<Longrightarrow>
   guardEntries g env es (Obj ps) visited = Return (t', visited') \<Longrightarrow>
   guardEntries g env es t' visited2 = Return (t', visited2)"
proof (induction es arbitrary: ps visited)
  case Nil
  then show ?case by simp
next
  case (Cons p rest)
  obtain k alts where p: "p = (k, alts)" by (cases p)
  from Cons.prems have rest: "list_all flatProperty rest" and "flatProperty p" by simp_all
  with p have key: "k \<noteq> ''__proto__''" and fl: "alts \<noteq> []" "list_all scalarKind alts"
    by (simp_all add: flatProperty_def)
  from Cons.prems p have dist: "distinct (map fst rest)" and knot: "k \<notin> fst ` set rest"
    by auto
  from fl have last: "scalarKind (last alts)" by (simp add: list_all_iff)
  define d where "d = scalarDefault (last alts)"
  from get_prop_present [OF key] obtain v where v: "get_prop (Obj ps) k = Return v" by blast
  have "\<exists>w vis1. guardEntries g env rest (Obj (assign k w ps)) vis1 = Return (t', visited')
          \<and> (if list_ex (accepts w) alts then w else d) = w"
  proof (cases "k \<in> fst ` set ps \<or> k \<in> set objectPrototypeNames")
    case False
    with Cons.prems(3) p fl last key show ?thesis
      by (auto simp: has_key_Obj attribute_scalar scalar_not_visited autoFillValue_scalar
          set_prop_named d_def)
  next
    case True
    with Cons.prems(3) p fl key v show ?thesis
      by (auto simp: has_key_Obj verifyAndFillField_scalar set_prop_named
          d_def split: if_splits)
  qed
  then obtain w vis1 where run: "guardEntries g env rest (Obj (assign k w ps)) vis1 = Return (t', visited')"
    and fx: "(if list_ex (accepts w) alts then w else d) = w" by blast
  from guardEntries_frame [OF run] knot
  have shape: "isObject t'" "\<not> isArrayValue t'" and val: "map_of (properties t') k = Some w"
    by (auto simp: map_of_assign)
  from shape obtain ps' where t': "t' = Obj ps'" by (cases t') auto
  with val have own: "map_of ps' k = Some w" by simp
  have again: "guardEntries g env rest (Obj ps') visited2 = Return (Obj ps', visited2)"
    using Cons.IH [OF rest dist run] t' by simp
  have "verifyAndFillField g env w (k, alts) visited2 = Return (w, visited2)"
    using fx unfolding d_def by (simp only: verifyAndFillField_scalar [OF fl])
  then show ?case
    using again p t'
    by (simp add: has_key_own [OF own] get_prop_own [OF own] set_prop_own [OF own]
        assign_same [OF own])
qed

text \<open>
  C2, as the claim states it, fails for declarations that refer to each other. The
  first run cuts the recursion with an empty object; the second run finds that
  object present, descends into it with a new \<open>visited\<close> set and fills it.
\<close>

theorem second_run_fills_cut:
  "guard 6 cycleBindings (Obj []) CycleA False =
     Return (Obj [(''b'', Obj [(''a'', Obj [(''b'', Obj [])])])])
   \<and> guard 6 cycleBindings (Obj [(''b'', Obj [(''a'', Obj [(''b'', Obj [])])])]) CycleA False =
     Return (Obj [(''b'', Obj [(''a'', Obj [(''b'', Obj [(''a'', Obj [(''b'', Obj [(''a'', Obj [])])])])])])])"
  by code_simp

text \<open>
  C2, amended. For a plain object and an object-shaped schema with distinct keys
  whose attribute values are base types and aliases, at least one per property, the
  guard returns, and guarding its result again returns the same value. For a
  declaration of kind \<^verbatim>\<open>typeAlias\<close>, guarding the value that the guard returned returns
  it again.
\<close>

theorem flat_schema_idempotent:
  assumes "declarationType S \<noteq> Some TypeAliasDeclaration"
    and "list_all flatProperty (entries S)"
    and "distinct (map fst (entries S))"
  shows "(\<exists>y. guard (Suc n) env (Obj ps) S False = Return y \<and> guard (Suc n) env y S False = Return y)
       \<and> (declarationType T = Some TypeAliasDeclaration \<and> guard m env z T isArr = Return w
            \<longrightarrow> guard m env w T isArr = Return w)"
proof -
  from guardEntries_flat_returns [OF assms(2)] obtain ps' where
    run: "guardEntries (applySchemaGuard n env) env (entries S) (Obj ps) {} = Return (Obj ps', {})"
    by blast
  from guardEntries_flat_idem [OF assms(2,3) run]
  have "guardEntries (applySchemaGuard n env) env (entries S) (Obj ps') {} = Return (Obj ps', {})" .
  with run assms(1)
  have "\<exists>y. guard (Suc n) env (Obj ps) S False = Return y \<and> guard (Suc n) env y S False = Return y"
    by (auto simp: guard_def guardWith_def)
  moreover have "declarationType T = Some TypeAliasDeclaration \<and> guard m env z T isArr = Return w
            \<longrightarrow> guard m env w T isArr = Return w"
    using typeAlias_target_irrelevant [of T m env w isArr z] by auto
  ultimately show ?thesis by blast
qed

theorem flat_schema_idempotent_witness:
  "guard 1 [] (Obj [(''name'', Str ''zcy'')]) UserSchema False
     = Return (Obj [(''name'', Str ''zcy''), (''age'', Num 1), (''tags'', Arr [] [])])
   \<and> guard 1 [] (Obj [(''name'', Str ''zcy''), (''age'', Num 1), (''tags'', Arr [] [])]) UserSchema False
     = Return (Obj [(''name'', Str ''zcy''), (''age'', Num 1), (''tags'', Arr [] [])])
   \<and> guard 1 [] (Str ''user'') RoleSchema False = Return (Str ''user'')"
proof -
  have flat: "list_all flatProperty (entries UserSchema)"
    by (simp add: UserSchema_def flatProperty_def)
  have run: "guard 1 [] (Obj [(''name'', Str ''zcy'')]) UserSchema False
     = Return (Obj [(''name'', Str ''zcy''), (''age'', Num 1), (''tags'', Arr [] [])])"
    by code_simp
  have role: "guard 1 [] Undefined RoleSchema False = Return (Str ''user'')"
    by code_simp
  from flat_schema_idempotent [where S = UserSchema and ps = "[(''name'', Str ''zcy'')]"
      and n = 0 and env = "[]" and T = RoleSchema and m = 1 and z = Undefined and isArr = False
      and w = "Str ''user''", OF _ flat]
  show ?thesis
    using run role by (simp add: UserSchema_def RoleSchema_def)
qed

section \<open>More budget, same outcome\<close>

text \<open>
  Every function of the guard is monotone in its recursive reference, so an outcome
  other than \<open>OutOfFuel\<close> stays what it is at every larger depth budget.
\<close>

lemma refines_refl: "refines r r"
  by (simp add: refines_def)

lemma refines_bind:
  assumes "refines m m'" and "\<And>x. refines (f x) (f' x)"
  shows "refines (bind m f) (bind m' f')"
proof (cases m)
  case (Return x)
  with assms(1) have "m' = Return x" by (simp add: refines_def)
  with Return assms(2) [of x] show ?thesis by simp
next
  case (Throw e)
  with assms(1) have "m' = Throw e" by (simp add: refines_def)
  with Throw show ?thesis by (simp add: refines_def)
next
  case OutOfFuel
  then show ?thesis by (simp add: refines_def)
next
  case Outside
  with assms(1) have "m' = Outside" by (simp add: refines_def)
  with Outside show ?thesis by (simp add: refines_def)
qed

lemma belowD: "below g g' \<Longrightarrow> refines (g t S a vis) (g' t S a vis)"
  by (simp add: below_def)

lemma forEachGuard_mono:
  "below g g' \<Longrightarrow> refines (forEachGuard g xs S) (forEachGuard g' xs S)"
proof (induction xs)
  case Nil
  then show ?case by (simp add: refines_refl)
next
  case (Cons x xs)
  then show ?case
    by (auto intro!: refines_bind belowD simp: refines_refl)
qed

lemma checkTypeLiteral_mono:
  "below g g' \<Longrightarrow> refines (checkTypeLiteral g v a fs) (checkTypeLiteral g' v a fs)"
  by (auto simp: checkTypeLiteral_def refines_refl intro!: refines_bind belowD forEachGuard_mono)

lemma checkTypeReference_mono:
  "below g g' \<Longrightarrow> refines (checkTypeReference g env v a name) (checkTypeReference g' env v a name)"
  by (auto simp: checkTypeReference_def refines_refl split: option.splits
      intro!: refines_bind belowD forEachGuard_mono)

lemma verifyFields_mono:
  "below g g' \<Longrightarrow> refines (verifyFields g env alts v flag) (verifyFields g' env alts v flag)"
proof (induction alts arbitrary: v flag)
  case Nil
  then show ?case by (simp add: refines_refl)
next
  case (Cons a alts)
  then show ?case
    by (cases a)
       (auto simp: refines_refl intro!: refines_bind checkTypeLiteral_mono checkTypeReference_mono)
qed

lemma autoFillValue_mono:
  "below g g' \<Longrightarrow> refines (autoFillValue g env p vis) (autoFillValue g' env p vis)"
  by (auto simp: autoFillValue_def fillTypeLiteral_def fillTypeReference_def refines_refl
      split: AttributeValue.splits option.splits intro!: refines_bind belowD)

lemma verifyAndFillField_mono:
  "below g g' \<Longrightarrow> refines (verifyAndFillField g env v p vis) (verifyAndFillField g' env v p vis)"
  by (auto simp: verifyAndFillField_def refines_refl
      intro!: refines_bind verifyFields_mono autoFillValue_mono)

lemma guardEntries_mono:
  "below g g' \<Longrightarrow> refines (guardEntries g env es t vis) (guardEntries g' env es t vis)"
proof (induction es arbitrary: t vis)
  case Nil
  then show ?case by (simp add: refines_refl)
next
  case (Cons p es)
  then show ?case
    by (auto simp: refines_refl intro!: refines_bind verifyAndFillField_mono autoFillValue_mono)
qed

lemma guardWith_mono:
  assumes "below g g'"
  shows "refines (guardWith g env t S a vis) (guardWith g' env t S a vis)"
proof -
  have loop: "refines
      (bind (guardEntries g env (entries S) t vis) (\<lambda>(target', visited'). Return (target', target', visited')))
      (bind (guardEntries g' env (entries S) t vis) (\<lambda>(target', visited'). Return (target', target', visited')))"
    by (intro refines_bind guardEntries_mono assms refines_refl)
  have first: "\<And>p. refines
      (bind (autoFillValue g env p vis) (\<lambda>(v, visited'). Return (v, t, visited')))
      (bind (autoFillValue g' env p vis) (\<lambda>(v, visited'). Return (v, t, visited')))"
    by (intro refines_bind autoFillValue_mono assms refines_refl)
  show ?thesis
    unfolding guardWith_def
    using loop first by (simp add: refines_refl split: list.splits)
qed

lemma applySchemaGuard_step: "below (applySchemaGuard n env) (applySchemaGuard (Suc n) env)"
proof (induction n)
  case 0
  then show ?case by (simp add: below_def refines_def)
next
  case (Suc n)
  then show ?case
    by (simp add: below_def guardWith_mono)
qed

lemma below_trans: "below g g' \<Longrightarrow> below g' g'' \<Longrightarrow> below g g''"
  unfolding below_def refines_def by metis

lemma applySchemaGuard_below: "below (applySchemaGuard n env) (applySchemaGuard (n + k) env)"
proof (induction k)
  case 0
  then show ?case by (simp add: below_def refines_def)
next
  case (Suc k)
  then show ?case
    using applySchemaGuard_step [of "n + k" env] by (auto intro: below_trans)
qed

lemma applySchemaGuard_stable:
  assumes "applySchemaGuard n env t S a vis \<noteq> OutOfFuel" and "n \<le> n'"
  shows "applySchemaGuard n' env t S a vis = applySchemaGuard n env t S a vis"
proof -
  from assms(2) have "n' = n + (n' - n)" by simp
  with applySchemaGuard_below [of n env "n' - n"]
  have "refines (applySchemaGuard n env t S a vis) (applySchemaGuard n' env t S a vis)"
    by (simp add: below_def)
  with assms(1) show ?thesis by (simp add: refines_def)
qed

lemma guardEntries_stable:
  assumes "guardEntries (applySchemaGuard n env) env es t vis \<noteq> OutOfFuel" and "n \<le> n'"
  shows "guardEntries (applySchemaGuard n' env) env es t vis
       = guardEntries (applySchemaGuard n env) env es t vis"
proof -
  from assms(2) have "n' = n + (n' - n)" by simp
  with applySchemaGuard_below [of n env "n' - n"]
  have "below (applySchemaGuard n env) (applySchemaGuard n' env)" by simp
  from guardEntries_mono [OF this, of env es t vis] assms(1) show ?thesis
    by (simp add: refines_def)
qed

lemma autoFillValue_stable:
  assumes "autoFillValue (applySchemaGuard n env) env p vis \<noteq> OutOfFuel" and "n \<le> n'"
  shows "autoFillValue (applySchemaGuard n' env) env p vis
       = autoFillValue (applySchemaGuard n env) env p vis"
proof -
  from assms(2) have "n' = n + (n' - n)" by simp
  with applySchemaGuard_below [of n env "n' - n"]
  have "below (applySchemaGuard n env) (applySchemaGuard n' env)" by simp
  from autoFillValue_mono [OF this, of env p vis] assms(1) show ?thesis
    by (simp add: refines_def)
qed

lemma guard_stable:
  assumes "guard n env t S a \<noteq> OutOfFuel" and "n \<le> n'"
  shows "guard n' env t S a = guard n env t S a"
proof -
  from assms(1) have "applySchemaGuard n env t S a {} \<noteq> OutOfFuel"
    by (auto simp: guard_def)
  from applySchemaGuard_stable [OF this assms(2)] show ?thesis
    by (simp add: guard_def)
qed

section \<open>The visited set grows\<close>

lemma growsD: "grows g \<Longrightarrow> g t S a vis = Return (r, t', vis') \<Longrightarrow> vis \<subseteq> vis'"
  unfolding grows_def by blast

lemma autoFillValue_grows:
  assumes "grows g" and "autoFillValue g env p vis = Return (v, vis')"
  shows "vis \<subseteq> vis'"
proof -
  from assms(2) obtain attrs where at: "attribute env p = Return attrs" and ne: "attrs \<noteq> []"
    by (auto simp: autoFillValue_def bind_Return_iff split: if_splits)
  show ?thesis
  proof (cases "isArray (last attrs)")
    case True
    with assms(2) at ne show ?thesis by (simp add: autoFillValue_def)
  next
    case False
    with assms(2) at ne show ?thesis
      by (cases "last attrs")
         (auto simp: autoFillValue_def fillTypeLiteral_def fillTypeReference_def bind_Return_iff
            split: option.splits dest: growsD [OF assms(1)])
  qed
qed

lemma verifyAndFillField_grows:
  assumes "grows g" and "verifyAndFillField g env x p vis = Return (v, vis')"
  shows "vis \<subseteq> vis'"
proof -
  from assms(2) obtain attrs flag w where
    "verifyFields g env attrs x False = Return (flag, w)"
    and res: "(if \<not> flag then autoFillValue g env p vis else Return (w, vis)) = Return (v, vis')"
    by (auto simp: verifyAndFillField_def bind_Return_iff)
  show ?thesis
  proof (cases flag)
    case True
    with res show ?thesis by simp
  next
    case False
    with res have "autoFillValue g env p vis = Return (v, vis')" by simp
    then show ?thesis by (rule autoFillValue_grows [OF assms(1)])
  qed
qed

lemma visited_add_grows: "vis \<subseteq> visited_add vis a"
  by (cases a) auto

lemma guardEntries_grows:
  assumes "grows g"
  shows "guardEntries g env es t vis = Return (t', vis') \<Longrightarrow> vis \<subseteq> vis'"
proof (induction es arbitrary: t vis)
  case Nil
  then show ?case by simp
next
  case (Cons p es)
  from Cons.prems obtain present where hk: "has_key (fst p) t = Return present"
    by (auto simp: bind_Return_iff)
  show ?case
  proof (cases present)
    case True
    with Cons.prems hk obtain current v vis1 t1 where
      "verifyAndFillField g env current p vis = Return (v, vis1)"
      "guardEntries g env es t1 vis1 = Return (t', vis')"
      by (auto simp: bind_Return_iff)
    with Cons.IH verifyAndFillField_grows [OF assms] show ?thesis by blast
  next
    case False
    with Cons.prems hk obtain attrs where
      at: "attribute env p = Return attrs" and ne: "attrs \<noteq> []"
      by (auto simp: bind_Return_iff split: if_splits)
    show ?thesis
    proof (cases "visited_has vis (last attrs)")
      case True
      with Cons.prems hk False at ne show ?thesis by (auto simp: bind_Return_iff)
    next
      case nv: False
      with Cons.prems hk False at ne obtain v vis1 t1 where
        "autoFillValue g env p (visited_add vis (last attrs)) = Return (v, vis1)"
        "guardEntries g env es t1 vis1 = Return (t', vis')"
        by (auto simp: bind_Return_iff)
      with Cons.IH autoFillValue_grows [OF assms] visited_add_grows [of vis "last attrs"]
      show ?thesis by blast
    qed
  qed
qed

lemma guardWith_grows:
  assumes "grows g"
  shows "grows (guardWith g env)"
  unfolding grows_def
proof (intro allI impI)
  fix t S a vis r t' vis'
  assume run: "guardWith g env t S a vis = Return (r, t', vis')"
  show "vis \<subseteq> vis'"
  proof (cases "a")
    case True
    with run show ?thesis by (simp add: guardWith_def)
  next
    case na: False
    show ?thesis
    proof (cases "declarationType S = Some TypeAliasDeclaration")
      case True
      with run na obtain p ps v where "entries S = p # ps"
        and "autoFillValue g env p vis = Return (v, vis')"
        by (auto simp: guardWith_def bind_Return_iff split: list.splits)
      then show ?thesis using autoFillValue_grows [OF assms] by blast
    next
      case False
      with run na have "guardEntries g env (entries S) t vis = Return (t', vis')"
        by (auto simp: guardWith_def bind_Return_iff)
      then show ?thesis by (rule guardEntries_grows [OF assms])
    qed
  qed
qed

lemma applySchemaGuard_grows: "grows (applySchemaGuard n env)"
  by (induction n) (simp_all add: guardWith_grows, simp add: grows_def)

section \<open>Cycles\<close>

text \<open>
  C4, as the claim states it, fails in its second part. The guard of \<^verbatim>\<open>{}\<close> against
  \<open>A\<close> returns, but the declaration the guard starts from is not in \<open>visited\<close>, so the
  recursion enters \<open>A\<close> once more before it is cut: the nested \<open>a\<close> is \<^verbatim>\<open>{b: {}}\<close>, and
  the empty object is the \<open>b\<close> below it.
\<close>

theorem cycle_cut_is_one_level_deeper:
  "guard 3 cycleBindings (Obj []) CycleA False =
     Return (Obj [(''b'', Obj [(''a'', Obj [(''b'', Obj [])])])])
   \<and> bind (get_prop (Obj [(''b'', Obj [(''a'', Obj [(''b'', Obj [])])])]) ''b'')
        (\<lambda>b. get_prop b ''a'') = Return (Obj [(''b'', Obj [])])
   \<and> bind (get_prop (Obj [(''b'', Obj [(''a'', Obj [(''b'', Obj [])])])]) ''b'')
        (\<lambda>b. get_prop b ''a'') \<noteq> Return (Obj [])"
  by code_simp

lemma cycle_any_budget:
  "guard (Suc (Suc (Suc n))) cycleBindings (Obj []) CycleA False =
     Return (Obj [(''b'', Obj [(''a'', Obj [(''b'', Obj [])])])])"
  by (simp add: guard_def guardWith_def cycleBindings_def CycleA_def CycleB_def attribute_def
      has_key_def set_prop_def objectPrototypeNames_def autoFillValue_def fillTypeReference_def)

text \<open>
  A cycle through declarations of kind \<^verbatim>\<open>typeAlias\<close> is never cut, since that branch
  of \<open>applySchemaGuard\<close> does not look at \<open>visited\<close>: for \<^verbatim>\<open>type X = 'a' | X\<close> the guard
  runs out of every depth budget.
\<close>

lemma alias_cycle_never_returns:
  "applySchemaGuard n [(''X'', LoopAlias)] target LoopAlias False visited = OutOfFuel"
  by (induction n arbitrary: target visited)
     (simp_all add: LoopAlias_def guardWith_def autoFillValue_def attribute_def
        fillTypeReference_def)

text \<open>
  The guard of an empty object against any schema of a well-formed module ends. A
  nested call either follows a reference from a property and marks it, which leaves
  fewer unmarked declarations, or descends into an inline object type with the same
  marks, which leaves a smaller schema, or follows the chain of a declaration of kind
  \<^verbatim>\<open>typeAlias\<close>, which ends; the loop goes on with marks that have only grown. A
  key that is inherited is found present in the object that the guard builds, where
  its value, a method, fails the base types and aliases of the property, and the
  default is assigned as for a key that is absent.
\<close>

lemma finished_bind:
  "finished m \<Longrightarrow> (\<And>x. m = Return x \<Longrightarrow> finished (f x)) \<Longrightarrow> finished (bind m f)"
  by (cases m) auto

lemma finished_not_OutOfFuel: "finished r \<Longrightarrow> r \<noteq> OutOfFuel"
  by (cases r) auto

lemma nestedList_last: "nestedList alts \<Longrightarrow> alts \<noteq> [] \<Longrightarrow> distinctKeys (last alts)"
  by (induction alts) (auto split: if_splits)

lemma weightList_last: "alts \<noteq> [] \<Longrightarrow> weight (last alts) \<le> weightList alts"
  by (induction alts) (auto split: if_splits)

lemma unvisited_mono:
  "vis \<subseteq> vis' \<Longrightarrow> card (fst ` set env - vis') \<le> card (fst ` set env - vis)"
  by (intro card_mono) auto

lemma unvisited_less:
  assumes "map_of env name = Some D" and "name \<notin> vis"
  shows "card (fst ` set env - insert name vis) < card (fst ` set env - vis)"
proof -
  from assms(1) have "name \<in> fst ` set env"
    by (metis map_of_eq_None_iff option.distinct(1))
  with assms(2) have "fst ` set env - insert name vis \<subset> fst ` set env - vis" by auto
  then show ?thesis by (intro psubset_card_mono) auto
qed

lemma module_schema:
  "wellFormedModule env \<Longrightarrow> map_of env name = Some D \<Longrightarrow> wellFormedSchema env D"
  by (auto simp: wellFormedModule_def list_all_iff dest!: map_of_SomeD)

lemma loop_continues:
  assumes first: "finished (autoFillValue (applySchemaGuard n1 env) env p vis0)"
    and rest: "\<And>v vis1. vis0 \<subseteq> vis1 \<Longrightarrow>
           \<exists>n. finished (guardEntries (applySchemaGuard n env) env es (f v) vis1)"
  shows "\<exists>n. finished (bind (autoFillValue (applySchemaGuard n env) env p vis0)
            (\<lambda>(v, vis1). guardEntries (applySchemaGuard n env) env es (f v) vis1))"
proof (cases "autoFillValue (applySchemaGuard n1 env) env p vis0")
  case (Return r)
  obtain v vis1 where r: "r = (v, vis1)" by (cases r)
  with Return have "vis0 \<subseteq> vis1"
    using autoFillValue_grows [OF applySchemaGuard_grows] by blast
  from rest [OF this] obtain n2 where
    n2: "finished (guardEntries (applySchemaGuard n2 env) env es (f v) vis1)" by blast
  have "autoFillValue (applySchemaGuard (max n1 n2) env) env p vis0 = Return (v, vis1)"
    using autoFillValue_stable [of n1 env p vis0 "max n1 n2"] Return r by simp
  moreover have "guardEntries (applySchemaGuard (max n1 n2) env) env es (f v) vis1
      = guardEntries (applySchemaGuard n2 env) env es (f v) vis1"
    using guardEntries_stable [of n2 env es "f v" vis1 "max n1 n2"] finished_not_OutOfFuel [OF n2]
    by simp
  ultimately show ?thesis using n2 by (intro exI [of _ "max n1 n2"]) simp
next
  case (Throw e)
  then show ?thesis by (intro exI [of _ n1]) simp
next
  case OutOfFuel
  with first show ?thesis by simp
next
  case Outside
  with first show ?thesis by simp
qed

lemma autoFillValue_TypeLiteral:
  assumes "attribute env p = Return alts" and "alts \<noteq> []" and "last alts = TypeLiteral fs False"
  shows "autoFillValue (guardWith g env) env p vis = bind (guardEntries g env fs (Obj []) vis) Return"
proof -
  have "autoFillValue (guardWith g env) env p vis = fillTypeLiteral (guardWith g env) fs False vis"
    using assms by (simp add: autoFillValue_def)
  also have "\<dots> = bind (guardEntries g env fs (Obj []) vis) Return"
    by (cases "guardEntries g env fs (Obj []) vis")
       (simp_all add: fillTypeLiteral_def guardWith_def inline_def split: prod.splits)
  finally show ?thesis .
qed

lemma autoFillValue_TypeReference:
  assumes "attribute env p = Return alts" and "alts \<noteq> []"
    and "last alts = TypeReference name False" and "map_of env name = Some D"
  shows "autoFillValue g env p vis =
     bind (g (Obj []) D False vis) (\<lambda>(returned, obj, visited'). Return (returned, visited'))"
  using assms by (simp add: autoFillValue_def fillTypeReference_def)

lemma guardWith_object:
  assumes "declarationType D \<noteq> Some TypeAliasDeclaration"
  shows "guardWith g env t D False vis =
     bind (guardEntries g env (entries D) t vis) (\<lambda>(target', visited'). Return (target', target', visited'))"
  using assms by (simp add: guardWith_def)

lemma guardWith_alias:
  assumes "declarationType D = Some TypeAliasDeclaration"
  shows "guardWith g env t D False vis =
     (case entries D of [] \<Rightarrow> Throw TypeError
      | q # _ \<Rightarrow> bind (autoFillValue g env q vis) (\<lambda>(v, visited'). Return (v, t, visited')))"
  using assms by (simp add: guardWith_def)

lemma guardEntries_absent_step:
  assumes "ordinaryKey k" and "k \<notin> fst ` set ps" and "attribute env (k, alts) = Return alts"
    and "alts \<noteq> []" and "\<not> visited_has vis (last alts)"
  shows "guardEntries g env ((k, alts) # rest) (Obj ps) vis =
     bind (autoFillValue g env (k, alts) (visited_add vis (last alts)))
       (\<lambda>(v, vis1). guardEntries g env rest (Obj (assign k v ps)) vis1)"
  using assms by (simp add: has_key_ordinary set_prop_ordinary)

lemma attribute_cases:
  "(\<exists>e. attribute env p = Throw e) \<or> (attribute env p = Return (snd p) \<and> list_all (bound env) (snd p))"
  by (simp add: attribute_def)

lemma non_recursive_fill:
  assumes "snd p \<noteq> [] \<longrightarrow> isArray (last (snd p)) \<or> scalarKind (last (snd p))"
  shows "finished (autoFillValue g env p vis)"
proof -
  from attribute_cases [of env p] show ?thesis
  proof
    assume "\<exists>e. attribute env p = Throw e"
    then show ?thesis by (auto simp: autoFillValue_def)
  next
    assume at: "attribute env p = Return (snd p) \<and> list_all (bound env) (snd p)"
    show ?thesis
    proof (cases "snd p = []")
      case True
      with at show ?thesis by (simp add: autoFillValue_def)
    next
      case False
      with assms have "isArray (last (snd p)) \<or> scalarKind (last (snd p))" by simp
      with at False show ?thesis
        by (cases "last (snd p)") (auto simp: autoFillValue_def)
    qed
  qed
qed

lemma fill_finished:
  assumes inline: "\<And>fs a. last (snd p) = TypeLiteral fs a \<Longrightarrow> wellFormedEntries fs \<Longrightarrow>
           \<exists>n. finished (guardEntries (applySchemaGuard n env) env fs (Obj []) vis)"
    and objects: "\<And>name D. last (snd p) = TypeReference name False \<Longrightarrow>
           map_of env name = Some D \<Longrightarrow> declarationType D \<noteq> Some TypeAliasDeclaration \<Longrightarrow>
           \<exists>n. finished (guardEntries (applySchemaGuard n env) env (entries D) (Obj []) vis)"
    and aliases: "\<And>name D. snd p \<noteq> [] \<Longrightarrow> last (snd p) = TypeReference name False \<Longrightarrow>
           map_of env name = Some D \<Longrightarrow> declarationType D = Some TypeAliasDeclaration \<Longrightarrow>
           \<exists>n. finished (guardWith (applySchemaGuard n env) env (Obj []) D False vis)"
    and wfm: "wellFormedModule env"
    and nested: "nestedList (snd p)"
  shows "\<exists>n. finished (autoFillValue (applySchemaGuard n env) env p vis)"
proof (cases "snd p \<noteq> [] \<longrightarrow> isArray (last (snd p)) \<or> scalarKind (last (snd p))")
  case True
  from non_recursive_fill [OF this] show ?thesis by blast
next
  case False
  then have ne: "snd p \<noteq> []" and obj: "\<not> isArray (last (snd p))" "\<not> scalarKind (last (snd p))"
    by simp_all
  from attribute_cases [of env p] show ?thesis
  proof
    assume "\<exists>e. attribute env p = Throw e"
    then show ?thesis by (auto simp: autoFillValue_def)
  next
    assume "attribute env p = Return (snd p) \<and> list_all (bound env) (snd p)"
    then have at: "attribute env p = Return (snd p)" and bnd: "list_all (bound env) (snd p)"
      by simp_all
    show ?thesis
    proof (cases "last (snd p)")
      case (BaseType kw a)
      with obj show ?thesis by simp
    next
      case (Alias v a)
      with obj show ?thesis by simp
    next
      case (TypeLiteral fs a)
      with obj have last: "last (snd p) = TypeLiteral fs False" by simp
      from nestedList_last [OF nested ne] last have "wellFormedEntries fs"
        by (simp add: wellFormedEntries_def)
      from inline [OF last this] obtain m where
        "finished (guardEntries (applySchemaGuard m env) env fs (Obj []) vis)" by blast
      then have "finished (autoFillValue (applySchemaGuard (Suc m) env) env p vis)"
        by (simp add: autoFillValue_TypeLiteral [OF at ne last] finished_bind)
      then show ?thesis by blast
    next
      case (TypeReference name a)
      with obj have last: "last (snd p) = TypeReference name False" by simp
      from ne have "last (snd p) \<in> set (snd p)" by simp
      with bnd last have "map_of env name \<noteq> None"
        by (auto simp: list_all_iff)
      then obtain D where D: "map_of env name = Some D" by blast
      have "\<exists>m. finished (guardWith (applySchemaGuard m env) env (Obj []) D False vis)"
      proof (cases "declarationType D = Some TypeAliasDeclaration")
        case True
        with ne last D show ?thesis by (rule aliases)
      next
        case False
        from objects [OF last D False] obtain m where
          "finished (guardEntries (applySchemaGuard m env) env (entries D) (Obj []) vis)" by blast
        then have "finished (guardWith (applySchemaGuard m env) env (Obj []) D False vis)"
          by (simp add: guardWith_object [OF False] finished_bind split: prod.splits)
        then show ?thesis by blast
      qed
      then obtain m where
        "finished (guardWith (applySchemaGuard m env) env (Obj []) D False vis)" by blast
      then have "finished (autoFillValue (applySchemaGuard (Suc m) env) env p vis)"
        by (simp add: autoFillValue_TypeReference [OF at ne last D] finished_bind split: prod.splits)
      then show ?thesis by blast
    qed
  qed
qed

lemma alias_terminates:
  assumes entriesEnd: "\<And>fs. wellFormedEntries fs \<Longrightarrow>
           \<exists>n. finished (guardEntries (applySchemaGuard n env) env fs (Obj []) vis)"
    and wfm: "wellFormedModule env"
  shows "aliasEnds k env D \<Longrightarrow> declarationType D = Some TypeAliasDeclaration \<Longrightarrow>
     nestedEntries (entries D) \<Longrightarrow>
     \<exists>n. finished (guardWith (applySchemaGuard n env) env t D False vis)"
proof (induction k arbitrary: D t)
  case 0
  then show ?case by simp
next
  case (Suc k)
  note kind = Suc.prems(2)
  show ?case
  proof (cases "entries D")
    case Nil
    then show ?thesis by (simp add: guardWith_alias [OF kind])
  next
    case (Cons q qs)
    with Suc.prems(3) have nested: "nestedList (snd q)" by (cases q) simp
    have "\<exists>n. finished (autoFillValue (applySchemaGuard n env) env q vis)"
    proof (rule fill_finished [OF _ _ _ wfm nested])
      fix fs a
      assume "wellFormedEntries fs"
      then show "\<exists>n. finished (guardEntries (applySchemaGuard n env) env fs (Obj []) vis)"
        by (rule entriesEnd)
    next
      fix name D'
      assume "map_of env name = Some D'" and "declarationType D' \<noteq> Some TypeAliasDeclaration"
      with module_schema [OF wfm] have "wellFormedEntries (entries D')"
        by (simp add: wellFormedSchema_def)
      then show "\<exists>n. finished (guardEntries (applySchemaGuard n env) env (entries D') (Obj []) vis)"
        by (rule entriesEnd)
    next
      fix name D'
      assume ne: "snd q \<noteq> []" and last: "last (snd q) = TypeReference name False"
        and D': "map_of env name = Some D'"
        and kindD: "declarationType D' = Some TypeAliasDeclaration"
      from Suc.prems(1) Cons ne last D' kindD have "aliasEnds k env D'" by simp
      moreover from module_schema [OF wfm D'] kindD have "nestedEntries (entries D')"
        by (simp add: wellFormedSchema_def)
      ultimately show "\<exists>n. finished (guardWith (applySchemaGuard n env) env (Obj []) D' False vis)"
        using Suc.IH kindD by blast
    qed
    then obtain n where "finished (autoFillValue (applySchemaGuard n env) env q vis)" by blast
    then have "finished (guardWith (applySchemaGuard n env) env t D False vis)"
      using Cons by (simp add: guardWith_alias [OF kind] finished_bind split: prod.splits)
    then show ?thesis by blast
  qed
qed

lemma fill_terminates_aux:
  assumes wfm: "wellFormedModule env"
  shows "wellFormedEntries (snd x) \<Longrightarrow> list_all (\<lambda>p. fst p \<notin> fst ` set ps) (snd x) \<Longrightarrow>
     \<exists>n. finished (guardEntries (applySchemaGuard n env) env (snd x) (Obj ps) (fst x))"
proof (induction x arbitrary: ps rule: wf_induct_rule
    [OF wf_measures [of "[\<lambda>x. card (fst ` set env - fst x), \<lambda>x. weightEntries (snd x)]"]])
  case (1 x)
  obtain vis fs where x: "x = (vis, fs)" by (cases x)
  note IH = "1.IH"
  show ?case
  proof (cases fs)
    case Nil
    with x show ?thesis by simp
  next
    case (Cons p rest)
    obtain k alts where p: "p = (k, alts)" by (cases p)
    from "1.prems" x Cons p have
      wf_rest: "wellFormedEntries rest" and knot: "\<forall>q\<in>set rest. fst q \<noteq> k"
      and field: "plainField (k, alts)"
      and nested: "nestedList alts"
      and absent: "k \<notin> fst ` set ps"
      and absent_rest: "list_all (\<lambda>q. fst q \<notin> fst ` set ps) rest"
      by (auto simp: wellFormedEntries_def image_iff)
    have cont: "\<exists>n. finished (guardEntries (applySchemaGuard n env) env rest (Obj (assign k v ps)) vis1)"
      if sub: "vis \<subseteq> vis1" for v vis1
    proof -
      have "((vis1, rest), x) \<in> measures [\<lambda>x. card (fst ` set env - fst x), \<lambda>x. weightEntries (snd x)]"
        using unvisited_mono [OF sub, of env] x Cons p by auto
      moreover have "list_all (\<lambda>q. fst q \<notin> fst ` set (assign k v ps)) rest"
        using absent_rest knot by (auto simp: list_all_iff keys_assign)
      ultimately show ?thesis
        using IH [of "(vis1, rest)" "assign k v ps"] wf_rest by simp
    qed
    show ?thesis
    proof (cases "ordinaryKey k")
    case inheritedKey: False
    with field have key: "k \<noteq> ''__proto__''" and scalars: "list_all scalarKind alts"
      by (simp_all add: plainField_def)
    from inheritedKey have hk: "has_key k (Obj ps) = Return True"
      by (simp add: has_key_Obj ordinaryKey_def)
    from get_prop_present [OF key] obtain v where v: "get_prop (Obj ps) k = Return v" by blast
    show ?thesis
    proof (cases "alts = []")
      case True
      then have "guardEntries (applySchemaGuard 0 env) env ((k, alts) # rest) (Obj ps) vis = Throw TypeError"
        using hk v by (simp add: verifyAndFillField_def attribute_def autoFillValue_def)
      then have "finished (guardEntries (applySchemaGuard 0 env) env ((k, alts) # rest) (Obj ps) vis)"
        by simp
      then show ?thesis
        unfolding x Cons p fst_conv snd_conv by blast
    next
      case False
      from cont [of vis] obtain n where
        n: "finished (guardEntries (applySchemaGuard n env) env rest
              (Obj (assign k (if list_ex (accepts v) alts then v else scalarDefault (last alts)) ps)) vis)"
        by blast
      have "guardEntries (applySchemaGuard n env) env ((k, alts) # rest) (Obj ps) vis
          = guardEntries (applySchemaGuard n env) env rest
              (Obj (assign k (if list_ex (accepts v) alts then v else scalarDefault (last alts)) ps)) vis"
        using hk v key by (simp add: verifyAndFillField_scalar [OF False scalars] set_prop_named)
      with n have "finished (guardEntries (applySchemaGuard n env) env ((k, alts) # rest) (Obj ps) vis)"
        by simp
      then show ?thesis
        unfolding x Cons p fst_conv snd_conv by blast
    qed
    next
    case key: True
    with absent have hk: "has_key k (Obj ps) = Return False"
      by (simp add: has_key_ordinary)
    from attribute_cases [of env p] show ?thesis
    proof
      assume "\<exists>e. attribute env p = Throw e"
      with hk x Cons p show ?thesis by auto
    next
      assume "attribute env p = Return (snd p) \<and> list_all (bound env) (snd p)"
      with p have at: "attribute env (k, alts) = Return alts" by simp
      show ?thesis
      proof (cases "alts = [] \<or> visited_has vis (last alts)")
        case True
        with hk x Cons p at key show ?thesis by (auto simp: set_prop_ordinary)
      next
        case False
        then have ne: "alts \<noteq> []" and nv: "\<not> visited_has vis (last alts)" by simp_all
        let ?vis = "visited_add vis (last alts)"
        have smaller: "((?vis, fs'), x) \<in> measures [\<lambda>x. card (fst ` set env - fst x), \<lambda>x. weightEntries (snd x)]"
          if "(\<exists>a. last alts = TypeLiteral fs' a) \<or> (\<exists>name a D. last alts = TypeReference name a \<and> map_of env name = Some D)"
          for fs'
          using that
        proof
          assume "\<exists>a. last alts = TypeLiteral fs' a"
          then obtain a where lit: "last alts = TypeLiteral fs' a" by blast
          then have "weightEntries fs' < weightEntries fs"
            using weightList_last [OF ne] Cons p by simp
          with lit x show ?thesis by simp
        next
          assume "\<exists>name a D. last alts = TypeReference name a \<and> map_of env name = Some D"
          then obtain name a D where ref: "last alts = TypeReference name a"
            and D: "map_of env name = Some D" by blast
          with nv have "name \<notin> vis" by simp
          from unvisited_less [OF D this] ref x show ?thesis by simp
        qed
        have below_x: "\<exists>n. finished (guardEntries (applySchemaGuard n env) env fs' (Obj []) ?vis)"
          if "(\<exists>a. last alts = TypeLiteral fs' a)
              \<or> (\<exists>name a D. last alts = TypeReference name a \<and> map_of env name = Some D)"
            and "wellFormedEntries fs'" for fs'
          using IH [OF smaller [OF that(1)], of "[]"] that(2) by (simp add: list_all_iff)
        have "\<exists>n1. finished (autoFillValue (applySchemaGuard n1 env) env p ?vis)"
        proof (rule fill_finished [OF _ _ _ wfm])
          show "nestedList (snd p)" using nested p by simp
        next
          fix fs' a
          assume "last (snd p) = TypeLiteral fs' a" and "wellFormedEntries fs'"
          with p show "\<exists>n. finished (guardEntries (applySchemaGuard n env) env fs' (Obj []) ?vis)"
            by (intro below_x) auto
        next
          fix name D
          assume "last (snd p) = TypeReference name False" and D: "map_of env name = Some D"
            and "declarationType D \<noteq> Some TypeAliasDeclaration"
          with module_schema [OF wfm D] p have "wellFormedEntries (entries D)"
            and "\<exists>name a D. last alts = TypeReference name a \<and> map_of env name = Some D"
            by (auto simp: wellFormedSchema_def)
          then show "\<exists>n. finished (guardEntries (applySchemaGuard n env) env (entries D) (Obj []) ?vis)"
            by (intro below_x) auto
        next
          fix name D
          assume "last (snd p) = TypeReference name False" and D: "map_of env name = Some D"
            and kindD: "declarationType D = Some TypeAliasDeclaration"
          with p have ref: "\<exists>name a D. last alts = TypeReference name a \<and> map_of env name = Some D"
            by auto
          from module_schema [OF wfm D] kindD have "nestedEntries (entries D)"
            and "aliasEnds (Suc (length env)) env D"
            by (simp_all add: wellFormedSchema_def)
          with kindD show "\<exists>n. finished (guardWith (applySchemaGuard n env) env (Obj []) D False ?vis)"
            by (intro alias_terminates [OF _ wfm]) (use below_x ref in blast)+
        qed
        then obtain n1 where
          first: "finished (autoFillValue (applySchemaGuard n1 env) env p ?vis)"
          by blast
        have "\<exists>n. finished (bind (autoFillValue (applySchemaGuard n env) env p ?vis)
            (\<lambda>(v, vis1). guardEntries (applySchemaGuard n env) env rest (Obj (assign k v ps)) vis1))"
        proof (rule loop_continues [OF first])
          fix v vis1
          assume "?vis \<subseteq> vis1"
          with visited_add_grows [of vis "last alts"] have "vis \<subseteq> vis1" by simp
          then show "\<exists>n. finished (guardEntries (applySchemaGuard n env) env rest (Obj (assign k v ps)) vis1)"
            by (rule cont)
        qed
        then obtain n where run: "finished (bind (autoFillValue (applySchemaGuard n env) env (k, alts) ?vis)
            (\<lambda>(v, vis1). guardEntries (applySchemaGuard n env) env rest (Obj (assign k v ps)) vis1))"
          unfolding p by blast
        have "finished (guardEntries (applySchemaGuard n env) env ((k, alts) # rest) (Obj ps) vis)"
          unfolding guardEntries_absent_step [OF key absent at ne nv] by (rule run)
        then show ?thesis
          unfolding x Cons p fst_conv snd_conv by blast
      qed
    qed
    qed
  qed
qed

lemma guard_empty_terminates:
  assumes wfm: "wellFormedModule env" and wfs: "wellFormedSchema env S"
  shows "\<exists>n. finished (guard n env (Obj []) S False)"
proof -
  have entriesEnd: "\<exists>n. finished (guardEntries (applySchemaGuard n env) env fs (Obj []) {})"
    if "wellFormedEntries fs" for fs
    using fill_terminates_aux [OF wfm, of "({}, fs)" "[]"] that by (simp add: list_all_iff)
  have "\<exists>n. finished (guardWith (applySchemaGuard n env) env (Obj []) S False {})"
  proof (cases "declarationType S = Some TypeAliasDeclaration")
    case True
    with wfs have "nestedEntries (entries S)" and "aliasEnds (Suc (length env)) env S"
      by (simp_all add: wellFormedSchema_def)
    with True show ?thesis
      by (intro alias_terminates [OF entriesEnd wfm])
  next
    case False
    with wfs have "wellFormedEntries (entries S)" by (simp add: wellFormedSchema_def)
    from entriesEnd [OF this] obtain m where
      "finished (guardEntries (applySchemaGuard m env) env (entries S) (Obj []) {})" by blast
    then have "finished (guardWith (applySchemaGuard m env) env (Obj []) S False {})"
      by (simp add: guardWith_object [OF False] finished_bind split: prod.splits)
    then show ?thesis by blast
  qed
  then obtain m where "finished (guardWith (applySchemaGuard m env) env (Obj []) S False {})"
    by blast
  then have "finished (guard (Suc m) env (Obj []) S False)"
    by (simp add: guard_def finished_bind split: prod.splits)
  then show ?thesis by blast
qed

text \<open>
  C4, amended. Given \<^verbatim>\<open>A{b: B}\<close> and \<^verbatim>\<open>B{a: A}\<close>, the guard of \<^verbatim>\<open>{}\<close> against \<open>A\<close>
  returns \<^verbatim>\<open>{b: {a: {b: {}}}}\<close> at every depth budget from three on. And the guard of
  \<^verbatim>\<open>{}\<close> against any schema of a well-formed module, self-referencing or not,
  terminates: some depth budget is enough for the call to return or throw, and
  every larger budget gives the same outcome.
\<close>

theorem cycle_guard_terminates:
  assumes "wellFormedModule env" and "wellFormedSchema env S"
  shows "guard (Suc (Suc (Suc k))) cycleBindings (Obj []) CycleA False =
           Return (Obj [(''b'', Obj [(''a'', Obj [(''b'', Obj [])])])])
       \<and> (\<exists>n. finished (guard n env (Obj []) S False)
             \<and> (\<forall>n'. n \<le> n' \<longrightarrow> guard n' env (Obj []) S False = guard n env (Obj []) S False))"
proof -
  from guard_empty_terminates [OF assms] obtain n where
    n: "finished (guard n env (Obj []) S False)" by blast
  have "\<forall>n'. n \<le> n' \<longrightarrow> guard n' env (Obj []) S False = guard n env (Obj []) S False"
    using guard_stable [OF finished_not_OutOfFuel [OF n]] by blast
  with n have "\<exists>n. finished (guard n env (Obj []) S False)
      \<and> (\<forall>n'. n \<le> n' \<longrightarrow> guard n' env (Obj []) S False = guard n env (Obj []) S False)"
    by blast
  with cycle_any_budget [of k] show ?thesis by (rule conjI)
qed

lemma shape_module: "wellFormedModule shapeBindings"
  by (simp add: wellFormedModule_def wellFormedSchema_def wellFormedEntries_def shapeBindings_def
      ShapeSchema_def CircleSchema_def SquareSchema_def plainField_def ordinaryKey_def
      objectPrototypeNames_def)

theorem cycle_guard_terminates_witness:
  "guard 3 cycleBindings (Obj []) CycleA False =
     Return (Obj [(''b'', Obj [(''a'', Obj [(''b'', Obj [])])])])
   \<and> (\<exists>n. finished (guard n shapeBindings (Obj []) ShapeSchema False)
         \<and> (\<forall>n'\<ge>n. guard n' shapeBindings (Obj []) ShapeSchema False
                      = guard n shapeBindings (Obj []) ShapeSchema False))
   \<and> guard 4 shapeBindings (Obj []) ShapeSchema False =
       Return (Obj [(''side'', Num 0), (''next'', Obj [(''side'', Num 0), (''next'', Obj [])])])"
proof -
  from shape_module have wf: "wellFormedSchema shapeBindings ShapeSchema"
    by (simp add: wellFormedModule_def shapeBindings_def)
  from cycle_guard_terminates [OF shape_module wf, of 0]
  have "guard 3 cycleBindings (Obj []) CycleA False =
           Return (Obj [(''b'', Obj [(''a'', Obj [(''b'', Obj [])])])])
       \<and> (\<exists>n. finished (guard n shapeBindings (Obj []) ShapeSchema False)
         \<and> (\<forall>n'\<ge>n. guard n' shapeBindings (Obj []) ShapeSchema False
                      = guard n shapeBindings (Obj []) ShapeSchema False))"
    by (simp add: numeral_3_eq_3)
  moreover have "guard 4 shapeBindings (Obj []) ShapeSchema False =
       Return (Obj [(''side'', Num 0), (''next'', Obj [(''side'', Num 0), (''next'', Obj [])])])"
    by code_simp
  ultimately show ?thesis by blast
qed

section \<open>Unsupported types\<close>

text \<open>
  A type reference with type arguments becomes a \<open>ParseError\<close> value and a warning,
  alone, in a union or as the element type of an array, and \<open>parsePropertyNode\<close>
  filters it out. A property signature all of whose attribute values are dropped that
  way yields \<^verbatim>\<open>null\<close>. The loops over the members of an interface, of an object type
  alias and of an intersection do not collect a \<^verbatim>\<open>null\<close>, so the parsed declaration
  has no property of that name.
\<close>

lemma isParseError_setArray: "isParseError (setArray v) = isParseError v"
  by (cases v) auto

lemma filter_setArray:
  "filter (\<lambda>a. \<not> isParseError a) (map setArray vs) = map setArray (filter (\<lambda>a. \<not> isParseError a) vs)"
  by (induction vs) (auto simp: isParseError_setArray)

lemma createUnionAttr_append:
  "createUnionAttr (xs @ ys) =
     (fst (createUnionAttr xs) @ fst (createUnionAttr ys),
      snd (createUnionAttr xs) @ snd (createUnionAttr ys))"
  by (induction xs) (auto split: prod.splits)

lemma all_generic_dropped:
  "allGeneric t \<Longrightarrow> filter (\<lambda>a. \<not> isParseError a) (fst (parseTypeNode t)) = []"
  "allGenericList ts \<Longrightarrow> filter (\<lambda>a. \<not> isParseError a) (fst (createUnionAttr ts)) = []"
proof (induction t and ts rule: allGeneric_allGenericList.induct)
  case (1 reference)
  then show ?case by (simp add: createTypeRefAttr_def createErrorAttr_def)
next
  case (3 elementType)
  then show ?case by (auto simp: filter_setArray split: prod.splits)
qed (auto split: prod.splits)

lemma generic_alternative_dropped:
  assumes "CHR ''<'' \<in> set text"
  shows "parseTypeNode (UnionType (xs @ TypeReferenceNode text # ys)) =
           (fst (createUnionAttr xs) @ ParseError False # fst (createUnionAttr ys),
            snd (createUnionAttr xs) @ GenericType text # snd (createUnionAttr ys))
       \<and> filter (\<lambda>a. \<not> isParseError a) (fst (parseTypeNode (UnionType (xs @ TypeReferenceNode text # ys))))
           = filter (\<lambda>a. \<not> isParseError a) (fst (parseTypeNode (UnionType (xs @ ys))))"
  using assms
  by (simp add: createUnionAttr_append [of xs] createTypeRefAttr_def createErrorAttr_def
      split: prod.splits)

lemma generic_member_dropped:
  "allGeneric t \<Longrightarrow> fst (parsePropertyNode (PropertySignature name q (Some t))) = None"
  using all_generic_dropped(1) [of t] by (cases "parseTypeNode t") auto

lemma memberProperties_append:
  "memberProperties (xs @ ys) =
     (fst (memberProperties xs) @ fst (memberProperties ys),
      snd (memberProperties xs) @ snd (memberProperties ys))"
  by (induction xs) (auto split: prod.splits option.splits)

lemma parsePropertyNode_key:
  assumes "fst (parsePropertyNode m) = Some p"
  shows "memberName m = key p \<and> parsedAttribute p \<noteq> []
         \<and> \<not> list_ex isParseError (parsedAttribute p)"
proof (cases m)
  case OtherMember
  with assms show ?thesis by simp
next
  case (PropertySignature name q ty)
  with assms show ?thesis
    by (cases ty) (auto simp: createErrorAttr_def list_ex_iff split: if_splits prod.splits)
qed

lemma memberProperties_sound:
  "p \<in> set (fst (memberProperties ms)) \<Longrightarrow> \<exists>m\<in>set ms. fst (parsePropertyNode m) = Some p"
  by (induction ms) (auto split: prod.splits option.splits)

lemma memberProperties_keys:
  "list_all (\<lambda>m. memberName m \<noteq> name) ms \<Longrightarrow> name \<notin> key ` set (fst (memberProperties ms))"
  by (auto simp: list_all_iff dest!: memberProperties_sound dest: parsePropertyNode_key)

lemma generic_field_omitted:
  assumes generic: "allGeneric t"
    and others: "list_all (\<lambda>m. memberName m \<noteq> name) (before @ after)"
  shows "fst (memberProperties (before @ PropertySignature name q (Some t) # after))
           = fst (memberProperties (before @ after))
       \<and> name \<notin> key ` set (fst (memberProperties (before @ PropertySignature name q (Some t) # after)))"
proof -
  let ?m = "PropertySignature name q (Some t)"
  have "fst (memberProperties [?m]) = []"
    using generic_member_dropped [OF generic, of name q]
    by (cases "parsePropertyNode ?m") (simp del: parsePropertyNode.simps)
  then have "fst (memberProperties (before @ ?m # after)) = fst (memberProperties (before @ after))"
    using memberProperties_append [of before "[?m] @ after"] memberProperties_append [of "[?m]" after]
      memberProperties_append [of before after]
    by simp
  with memberProperties_keys [OF others] show ?thesis by simp
qed

text \<open>
  For \<open>Cart\<close> the warning is logged, the parsed declaration has the property \<open>name\<close>
  only, and this is the text that \<open>build\<close> prints.
\<close>

lemma cart_build:
  "parseNode CartSource [] =
     ([\<lparr>objectName = ''_Cart__traC'',
        props = [ParsedProperty ''name'' [ParsedBase StringKeyword False] False],
        isExport = True, kind = InterfaceDeclaration\<rparr>], [GenericType ''Promise<string>''])
   \<and> build False CartSource = Return
       (newline @ ''export var _Cart__traC = { name:{isOptional:false,get attribute() {return [{value:''
        @ quoted ''string_keyword'' @ '',isArray:false,valueType:'' @ quoted ''baseType''
        @ ''}]},key:'' @ quoted ''name'' @ ''}};'' @ newline @ newline
        @ ''        Object.defineProperty(_Cart__traC,'' @ quoted ''_DeclarationTypeKey'' @ '',{'' @ newline
        @ ''           value: '' @ quoted ''interface'' @ '','' @ newline
        @ ''           enumerable: false'' @ newline
        @ ''        });'' @ newline @ newline @ ''        '')"
  by (simp add: build_def CartSource_def parseInterfaceNode_def createTypeRefAttr_def
      createErrorAttr_def createBaseAttr_def formatObjectName_def declarationText_def
      propsToString_def valueTemplate_def boolText_def)

text \<open>
  C8. The claim is that a field whose attribute values are all dropped is left out
  and the schema is generated without it. Inside an inline object type it is not
  left out: \<open>createTypeLiteralAttr\<close> keeps the \<^verbatim>\<open>null\<close> that \<open>parsePropertyNode\<close> returns
  in the list of the nested properties, and \<open>generateExportCode\<close> throws a TypeError
  on it, so \<open>build\<close> fails and no module is generated at all.
\<close>

theorem nested_generic_field_aborts_build:
  "parseNode NestedSource [] =
     ([\<lparr>objectName = ''_Cart__traC'',
        props = [ParsedProperty ''inner'' [ParsedLiteral [None] False] False,
                 ParsedProperty ''name'' [ParsedBase StringKeyword False] False],
        isExport = True, kind = InterfaceDeclaration\<rparr>], [GenericType ''Promise<string>''])
   \<and> build False NestedSource = Throw TypeError
   \<and> build True NestedSource = Throw TypeError"
  by (simp add: build_def NestedSource_def parseInterfaceNode_def createTypeRefAttr_def
      createErrorAttr_def createBaseAttr_def formatObjectName_def declarationText_def
      propsToString_def)

end
